theory Spec2Isabelle
  imports Main "HOL-Library.Sublist"
begin

section \<open>Python strings\<close>

text \<open>
  A Python \<open>str\<close> is modelled as a \<open>string\<close>, one \<open>char\<close> per code point, for the
  code points 0 to 255. In that range \<open>str.isspace\<close> holds for 9 to 13, 28 to 32, 133
  and 160, and the regular expression class \<open>\d\<close> is the ten ASCII digits.
\<close>

definition isspace :: "char \<Rightarrow> bool" where
  "isspace c = (c \<in> set [CHR 0x09, CHR 0x0A, CHR 0x0B, CHR 0x0C, CHR 0x0D,
                          CHR 0x1C, CHR 0x1D, CHR 0x1E, CHR 0x1F, CHR 0x20,
                          CHR 0x85, CHR 0xA0])"

definition isdigit :: "char \<Rightarrow> bool" where
  "isdigit c = (c \<in> set ''0123456789'')"

text \<open>\<open>s.strip()\<close>: leading and trailing whitespace removed.\<close>

definition str_lstrip :: "string \<Rightarrow> string" where
  "str_lstrip s = dropWhile isspace s"

definition str_rstrip :: "string \<Rightarrow> string" where
  "str_rstrip s = rev (dropWhile isspace (rev s))"

definition str_strip :: "string \<Rightarrow> string" where
  "str_strip s = str_rstrip (str_lstrip s)"

text \<open>\<open>s.split(sep)\<close> for a separator of one character: never an empty list.\<close>

fun str_split :: "char \<Rightarrow> string \<Rightarrow> string list" where
  "str_split sep [] = [[]]"
| "str_split sep (c # cs) =
     (if c = sep then [] # str_split sep cs
      else (case str_split sep cs of
              [] \<Rightarrow> [[c]]
            | l # ls \<Rightarrow> (c # l) # ls))"

text \<open>\<open>sep.join(xs)\<close>.\<close>

fun str_join :: "string \<Rightarrow> string list \<Rightarrow> string" where
  "str_join sep [] = []"
| "str_join sep [x] = x"
| "str_join sep (x # y # ys) = x @ sep @ str_join sep (y # ys)"

subsection \<open>Regular expressions\<close>

text \<open>
  The fragment of \<open>re\<close> the program uses: a sequence of items, each one character
  class, taken once or one or more times (\<open>+\<close>). \<open>re_match\<close> is \<open>re.match\<close>: the
  pattern has to match at the start of the string and may stop before its end. The
  matcher tries the longer repetition first and backtracks, as \<open>re\<close> does.
\<close>

datatype re_item = One "char \<Rightarrow> bool" | Many1 "char \<Rightarrow> bool"

fun re_match :: "re_item list \<Rightarrow> string \<Rightarrow> bool" where
  "re_match [] s = True"
| "re_match (One p # items) [] = False"
| "re_match (One p # items) (c # cs) = (p c \<and> re_match items cs)"
| "re_match (Many1 p # items) [] = False"
| "re_match (Many1 p # items) (c # cs) =
     (p c \<and> (re_match (Many1 p # items) cs \<or> re_match items cs))"

text \<open>The pattern \<open>^\d+\.\<close> of \<open>generate_lesson_plans\<close>.\<close>

definition numbered_re :: "re_item list" where
  "numbered_re = [Many1 isdigit, One (\<lambda>c. c = CHR ''.'')]"

section \<open>The outline parser\<close>

text \<open>
  The first lines of \<open>generate_lesson_plans\<close>:
  \<^verbatim>\<open>lines = [line.strip() for line in outline.split("\n") if line.strip()]\<close>
  \<^verbatim>\<open>modules = [line for line in lines if re.match(r"^\d+\.", line)]\<close>
  \<^verbatim>\<open>if not modules: modules = lines\<close>
\<close>

definition outline_lines :: "string \<Rightarrow> string list" where
  "outline_lines outline =
     [str_strip line. line \<leftarrow> str_split CHR 0x0A outline, str_strip line \<noteq> []]"

definition outline_modules :: "string \<Rightarrow> string list" where
  "outline_modules outline =
     (let lines = outline_lines outline;
          modules = [line. line \<leftarrow> lines, re_match numbered_re line]
      in if modules = [] then lines else modules)"

text \<open>
  The contract of the parser in the specification's words: split the raw text on
  newlines, trim each line, keep the non-empty lines, then keep only the lines that start
  with digits and a period; if that keeps nothing, every non-empty line is a module.
\<close>

definition leading_digits_period :: "string \<Rightarrow> bool" where
  "leading_digits_period l =
     (takeWhile isdigit l \<noteq> [] \<and>
      (case dropWhile isdigit l of [] \<Rightarrow> False | c # _ \<Rightarrow> c = CHR ''.''))"

definition spec_outline_modules :: "string \<Rightarrow> string list" where
  "spec_outline_modules raw =
     (let nonempty = filter (\<lambda>l. l \<noteq> []) (map str_strip (str_split CHR 0x0A raw));
          headers = filter leading_digits_period nonempty
      in if headers = [] then nonempty else headers)"

section \<open>Python values, exceptions and dictionaries\<close>

text \<open>
  An exception is an instance of a subclass of \<open>Exception\<close>, kept as its message
  \<open>str(e)\<close>. A call that can raise returns \<open>exn + 'a\<close>, with \<open>Inl\<close> for the
  exception.
\<close>

datatype exn = Exn string

fun exn_str :: "exn \<Rightarrow> string" where
  "exn_str (Exn msg) = msg"

text \<open>
  The values that JSON carries, without floating-point numbers. A \<open>dict\<close> is the list
  of its items in insertion order; its keys are strings and are distinct.
\<close>

datatype pyval =
    PNone
  | PBool bool
  | PInt int
  | PStr string
  | PList "pyval list"
  | PDict "(string \<times> pyval) list"

text \<open>\<open>d[k] = v\<close>: an existing key keeps its place and takes the new value.\<close>

fun dict_set :: "('k \<times> 'v) list \<Rightarrow> 'k \<Rightarrow> 'v \<Rightarrow> ('k \<times> 'v) list" where
  "dict_set [] k v = [(k, v)]"
| "dict_set ((k', v') # d) k v =
     (if k' = k then (k, v) # d else (k', v') # dict_set d k v)"

text \<open>\<open>str(n)\<close> for a natural number and for an integer.\<close>

definition digit_char :: "nat \<Rightarrow> char" where
  "digit_char d = ''0123456789abcdef'' ! (d mod 16)"

function string_of_nat :: "nat \<Rightarrow> string" where
  "string_of_nat n =
     (if n < 10 then [digit_char n] else string_of_nat (n div 10) @ [digit_char (n mod 10)])"
  by pat_completeness auto
termination
  by (relation "measure id") auto

declare string_of_nat.simps [simp del]

definition string_of_int :: "int \<Rightarrow> string" where
  "string_of_int i =
     (if i < 0 then CHR ''-'' # string_of_nat (nat (- i)) else string_of_nat (nat i))"

text \<open>\<open>s.replace(a, b)\<close> for single characters.\<close>

definition str_replace :: "char \<Rightarrow> char \<Rightarrow> string \<Rightarrow> string" where
  "str_replace a b s = map (\<lambda>c. if c = a then b else c) s"

section \<open>The user interface and the outside world\<close>

text \<open>
  What the script shows is a log of events, in the order of the calls of the widget
  library; the calls that only lay the page out (page configuration, form, columns) are
  not logged. The prompts sent to the language model are logged as well.
\<close>

datatype ui_event =
    Title string
  | Text string
  | Subheader string
  | Markdown string
  | StatusLabel string
  | Success string
  | Error string
  | Expander string
  | ItemWrite nat pyval
  | Multiselect string "string list"
  | ProgressBar nat nat
  | StatusText string
  | Spinner string
  | Download string string string string

record pstate =
  ui :: "ui_event list"
  prompts :: "string list"

definition emit :: "ui_event \<Rightarrow> pstate \<Rightarrow> pstate" where
  "emit e s = s\<lparr>ui := ui s @ [e]\<rparr>"

text \<open>
  A response of \<open>requests.get\<close>: its status code and what \<open>response.json()\<close> gives.
\<close>

record response =
  status_code :: nat
  body_json :: "exn + pyval"

text \<open>One operation on an \<open>FPDF\<close> document; a cell has its width, height and text.\<close>

datatype pdf_op =
    AddPage
  | SetFont string string nat
  | Cell nat nat string
  | Ln nat
  | MultiCell nat nat string

text \<open>
  The services the script calls, as parameters:
  \<^item> \<open>requests_get url params timeout\<close> is \<open>requests.get\<close>;
  \<^item> \<open>completion n prompt\<close> is the call of \<open>completion\<close> number \<open>n\<close> of the run
    (from 0), with one user message \<open>prompt\<close>, followed by the reading of
    \<open>response["choices"][0]["message"]["content"]\<close>: the content, or the exception
    that any of this raises;
  \<^item> \<open>multiselect options\<close> is the list that \<open>st.multiselect\<close> returns for these options;
  \<^item> \<open>fpdf_output ops\<close> is \<open>pdf.output(dest="S")\<close> after the operations \<open>ops\<close>.
\<close>

record world =
  requests_get :: "string \<Rightarrow> (string \<times> pyval) list \<Rightarrow> nat option \<Rightarrow> exn + response"
  completion :: "nat \<Rightarrow> string \<Rightarrow> exn + string"
  multiselect :: "string list \<Rightarrow> string list"
  fpdf_output :: "pdf_op list \<Rightarrow> exn + string"

text \<open>Sequencing of calls that can raise: the first exception ends the sequence.\<close>

fun and_then :: "exn + 'a \<Rightarrow> ('a \<Rightarrow> exn + 'b) \<Rightarrow> exn + 'b" where
  "and_then (Inl e) f = Inl e"
| "and_then (Inr x) f = f x"

fun all_or_raise :: "(exn + 'a) list \<Rightarrow> exn + 'a list" where
  "all_or_raise [] = Inr []"
| "all_or_raise (r # rs) =
     (case r of
        Inl e \<Rightarrow> Inl e
      | Inr x \<Rightarrow> (case all_or_raise rs of Inl e \<Rightarrow> Inl e | Inr xs \<Rightarrow> Inr (x # xs)))"

section \<open>External data fetchers\<close>

text \<open>\<open>response.raise_for_status()\<close>: an error status raises.\<close>

definition raise_for_status :: "response \<Rightarrow> exn + unit" where
  "raise_for_status r =
     (if 400 \<le> status_code r \<and> status_code r < 600 then Inl (Exn ''HTTPError'')
      else Inr ())"

text \<open>\<open>data.get(key, [])\<close>: only a dict has \<open>get\<close>.\<close>

fun py_get :: "pyval \<Rightarrow> string \<Rightarrow> exn + pyval" where
  "py_get (PDict d) key = (case map_of d key of Some v \<Rightarrow> Inr v | None \<Rightarrow> Inr (PList []))"
| "py_get v key = Inl (Exn ''AttributeError'')"

text \<open>The items a \<open>for\<close> loop takes from a value.\<close>

fun py_iter :: "pyval \<Rightarrow> exn + pyval list" where
  "py_iter (PList xs) = Inr xs"
| "py_iter (PDict d) = Inr (map (\<lambda>kv. PStr (fst kv)) d)"
| "py_iter (PStr s) = Inr (map (\<lambda>c. PStr [c]) s)"
| "py_iter v = Inl (Exn ''TypeError'')"

text \<open>\<open>item[key]\<close> for a string key.\<close>

fun py_item :: "pyval \<Rightarrow> string \<Rightarrow> exn + pyval" where
  "py_item (PDict d) key = (case map_of d key of Some v \<Rightarrow> Inr v | None \<Rightarrow> Inl (Exn ''KeyError''))"
| "py_item v key = Inl (Exn ''TypeError'')"

text \<open>\<^verbatim>\<open>[item["title"] for item in data.get(key, [])]\<close>\<close>

definition titles_of :: "string \<Rightarrow> pyval \<Rightarrow> exn + pyval list" where
  "titles_of key data =
     and_then (py_get data key) (\<lambda>items.
     and_then (py_iter items) (\<lambda>xs.
     all_or_raise (map (\<lambda>item. py_item item ''title'') xs)))"

text \<open>The body of the \<open>try\<close> of \<open>fetch_semantic_scholar_data\<close>, up to the list of titles.\<close>

definition scholar_try :: "world \<Rightarrow> string \<Rightarrow> exn + pyval list" where
  "scholar_try w subject =
     and_then (requests_get w ''https://api.semanticscholar.org/graph/v1/paper/search''
                 [(''query'', PStr subject), (''limit'', PInt 5),
                  (''fields'', PStr ''title,authors,year,abstract,url'')] (Some 10)) (\<lambda>response.
     and_then (raise_for_status response) (\<lambda>_.
     and_then (body_json response) (\<lambda>data.
     titles_of ''data'' data)))"

definition fetch_semantic_scholar_data :: "world \<Rightarrow> string \<Rightarrow> pstate \<Rightarrow> pstate \<times> pyval list" where
  "fetch_semantic_scholar_data w subject s =
     (case scholar_try w subject of
        Inr papers \<Rightarrow> (emit (Success ''Semantic Scholar data fetched successfully'') s, papers)
      | Inl e \<Rightarrow> (emit (Error (''Error fetching Semantic Scholar data: '' @ exn_str e)) s, []))"

text \<open>The body of the \<open>try\<close> of \<open>fetch_external_data\<close>, up to the list of titles.\<close>

definition news_try :: "world \<Rightarrow> string \<Rightarrow> exn + pyval list" where
  "news_try w subject =
     and_then (requests_get w ''https://newsapi.org/v2/everything''
                 [(''q'', PStr subject), (''sortBy'', PStr ''publishedAt''),
                  (''apiKey'', PStr ''api_key_here''), (''pageSize'', PInt 5)] None) (\<lambda>news_response.
     and_then (body_json news_response) (\<lambda>news_data.
     titles_of ''articles'' news_data))"

definition fetch_external_data ::
  "world \<Rightarrow> string \<Rightarrow> pstate \<Rightarrow> pstate \<times> (pyval list \<times> pyval list)" where
  "fetch_external_data w subject s =
     (let s1 = emit (StatusLabel ''Fetching news data...'') s;
          (s2, news_articles) =
             (case news_try w subject of
                Inr titles \<Rightarrow>
                  (emit (Success ''News data fetched successfully'')
                     (emit (StatusLabel ''News data fetched successfully'') s1), titles)
              | Inl e \<Rightarrow> (emit (Error (''Error fetching news data: '' @ exn_str e)) s1, []));
          s3 = emit (StatusLabel ''Fetching Semantic Scholar data...'') s2;
          (s4, scholar_papers) = fetch_semantic_scholar_data w subject s3
      in (s4, (news_articles, scholar_papers)))"

section \<open>Context assembly\<close>

text \<open>\<open>sep.join(xs)\<close> on a list of values: an item that is not a string raises.\<close>

fun py_str_of :: "pyval \<Rightarrow> exn + string" where
  "py_str_of (PStr s) = Inr s"
| "py_str_of v = Inl (Exn ''TypeError'')"

definition py_join :: "string \<Rightarrow> pyval list \<Rightarrow> exn + string" where
  "py_join sep xs = and_then (all_or_raise (map py_str_of xs)) (\<lambda>strs. Inr (str_join sep strs))"

text \<open>An expander with one numbered line for each title, shown when there is a title.\<close>

definition show_titles :: "string \<Rightarrow> pyval list \<Rightarrow> pstate \<Rightarrow> pstate" where
  "show_titles label xs s =
     (if xs = [] then s
      else foldl (\<lambda>s' ix. emit (ItemWrite (fst ix) (snd ix)) s') (emit (Expander label) s)
             (enumerate 1 xs))"

definition combine_external_context ::
  "pyval list \<times> pyval list \<Rightarrow> pstate \<Rightarrow> pstate \<times> (exn + string)" where
  "combine_external_context external_data s =
     (let (news_articles, scholar_papers) = external_data;
          s1 = show_titles ''News Headlines'' news_articles s;
          s2 = show_titles ''Research Papers'' scholar_papers s1
      in (s2,
          and_then (py_join '', '' news_articles) (\<lambda>news.
          and_then (py_join '', '' scholar_papers) (\<lambda>papers.
          Inr (''News Headlines: '' @ news @ ''. '' @ ''Research Papers: '' @ papers @ ''.'')))))"

section \<open>Outline generation\<close>

text \<open>
  A call of the language model: the prompt is logged, and the answer is that of the
  call of this number.
\<close>

definition call_completion :: "world \<Rightarrow> string \<Rightarrow> pstate \<Rightarrow> pstate \<times> (exn + string)" where
  "call_completion w prompt s =
     (s\<lparr>prompts := prompts s @ [prompt]\<rparr>, completion w (length (prompts s)) prompt)"

definition outline_prompt :: "string \<Rightarrow> nat \<Rightarrow> string \<Rightarrow> string" where
  "outline_prompt subject_input module_count external_context =
     ''Using the following context from recent news and scholar papers trends:\<newline>'' @
     external_context @ ''\<newline>\<newline>'' @
     ''Generate a comprehensive course outline on the subject '' @ [CHR 0x27] @ subject_input @
     [CHR 0x27] @ '' with '' @ string_of_nat module_count @ '' modules. '' @
     ''Each module should have a title and a brief description, formatted as a numbered list (e.g., '' @
     [CHR 0x27] @ ''1. Module Title: Description'' @ [CHR 0x27] @ '').''"

text \<open>The call is not inside any \<open>try\<close>: its exception is the result.\<close>

definition generate_course_outline ::
  "world \<Rightarrow> string \<Rightarrow> nat \<Rightarrow> string \<Rightarrow> pstate \<Rightarrow> pstate \<times> (exn + string)" where
  "generate_course_outline w subject_input module_count external_context s =
     (let s1 = emit (StatusLabel ''Generating course outline...'') s;
          prompt = outline_prompt subject_input module_count external_context;
          (s2, response) = call_completion w prompt s1
      in case response of
           Inl e \<Rightarrow> (s2, Inl e)
         | Inr content \<Rightarrow>
             (emit (StatusLabel ''Course outline generated'') s2, Inr (str_strip content)))"

section \<open>Lesson-plan generation\<close>

definition lesson_prompt :: "string \<Rightarrow> string" where
  "lesson_prompt module =
     ''Based on the course module: '' @ [CHR 0x27] @ module @ [CHR 0x27] @
     '', generate a detailed lesson plan. '' @
     ''Include key topics, activities, and suggested resources.''"

text \<open>
  The \<open>for\<close> loop over \<open>enumerate(selected_modules)\<close>; \<open>len_selected\<close> is
  \<open>len(selected_modules)\<close>. An exception of the call leaves the loop and the function.
\<close>

definition lesson_status :: "nat \<Rightarrow> nat \<Rightarrow> string" where
  "lesson_status i len_selected =
     ''Generating lesson plan for module '' @ string_of_nat (i + 1) @ ''/'' @
     string_of_nat len_selected"

fun lesson_plan_loop ::
  "world \<Rightarrow> nat \<Rightarrow> (nat \<times> string) list \<Rightarrow> pstate \<Rightarrow> (string \<times> string) list \<Rightarrow>
   pstate \<times> (exn + (string \<times> string) list)" where
  "lesson_plan_loop w len_selected [] s lesson_plans = (s, Inr lesson_plans)"
| "lesson_plan_loop w len_selected (im # rest) s lesson_plans =
     (case call_completion w (lesson_prompt (snd im))
             (emit (StatusText (lesson_status (fst im) len_selected)) s) of
        (s2, Inl e) \<Rightarrow> (s2, Inl e)
      | (s2, Inr content) \<Rightarrow>
          lesson_plan_loop w len_selected rest (emit (ProgressBar (fst im + 1) len_selected) s2)
            (dict_set lesson_plans (snd im) (str_strip content)))"

definition generate_lesson_plans ::
  "world \<Rightarrow> string \<Rightarrow> pstate \<Rightarrow> pstate \<times> (exn + (string \<times> string) list)" where
  "generate_lesson_plans w outline s =
     (let s1 = emit (Markdown outline) (emit (Subheader ''Course Outline'') s);
          modules = outline_modules outline;
          selected_modules = multiselect w modules;
          s2 = emit (Multiselect ''Select modules for detailed lesson plans:'' modules) s1;
          s3 = emit (ProgressBar 0 1) s2;
          (s4, result) =
             lesson_plan_loop w (length selected_modules) (enumerate 0 selected_modules) s3 []
      in case result of
           Inl e \<Rightarrow> (s4, Inl e)
         | Inr lesson_plans \<Rightarrow>
             (emit (StatusText ''All lesson plans generated!'') s4, Inr lesson_plans))"

text \<open>
  \<open>flow.kickoff()\<close>: the methods of the flow run one after the other, each on the
  result of the one it listens to, and the result of the last is returned. An exception
  of a method ends the run.
\<close>

definition kickoff ::
  "world \<Rightarrow> string \<Rightarrow> nat \<Rightarrow> pstate \<Rightarrow> pstate \<times> (exn + (string \<times> string) list)" where
  "kickoff w subject module_cnt s =
     (let (s1, external_data) = fetch_external_data w subject s;
          (s2, context) = combine_external_context external_data s1
      in case context of
           Inl e \<Rightarrow> (s2, Inl e)
         | Inr external_context \<Rightarrow>
             (let (s3, outline) =
                    generate_course_outline w subject module_cnt external_context s2
              in case outline of
                   Inl e \<Rightarrow> (s3, Inl e)
                 | Inr outline_text \<Rightarrow> generate_lesson_plans w outline_text s3))"

section \<open>Export renderers\<close>

subsection \<open>JSON\<close>

text \<open>
  \<open>json.dumps(obj, indent=2)\<close>. A string is written in ASCII: the quote and the
  backslash are escaped, the control characters have their short escapes or
  \<open>\u00XX\<close>, and so has every character after \<open>~\<close>.
\<close>

definition hex4 :: "nat \<Rightarrow> string" where
  "hex4 n = [digit_char (n div 4096), digit_char (n div 256), digit_char (n div 16), digit_char n]"

definition json_escape_char :: "char \<Rightarrow> string" where
  "json_escape_char c =
     (if c = CHR 0x22 then [CHR 0x5C, CHR 0x22]
      else if c = CHR 0x5C then [CHR 0x5C, CHR 0x5C]
      else if c = CHR 0x0A then [CHR 0x5C, CHR ''n'']
      else if c = CHR 0x0D then [CHR 0x5C, CHR ''r'']
      else if c = CHR 0x09 then [CHR 0x5C, CHR ''t'']
      else if c = CHR 0x0C then [CHR 0x5C, CHR ''f'']
      else if c = CHR 0x08 then [CHR 0x5C, CHR ''b'']
      else if 32 \<le> (of_char c :: nat) \<and> (of_char c :: nat) \<le> 126 then [c]
      else [CHR 0x5C, CHR ''u''] @ hex4 (of_char c))"

definition json_string :: "string \<Rightarrow> string" where
  "json_string s = [CHR 0x22] @ concat (map json_escape_char s) @ [CHR 0x22]"

definition newline_indent :: "nat \<Rightarrow> string" where
  "newline_indent level = CHR 0x0A # replicate (2 * level) CHR '' ''"

fun json_encode :: "nat \<Rightarrow> pyval \<Rightarrow> string" where
  "json_encode level PNone = ''null''"
| "json_encode level (PBool b) = (if b then ''true'' else ''false'')"
| "json_encode level (PInt i) = string_of_int i"
| "json_encode level (PStr s) = json_string s"
| "json_encode level (PList xs) =
     (if xs = [] then ''[]''
      else ''['' @ newline_indent (level + 1) @
           str_join ('','' @ newline_indent (level + 1)) (map (json_encode (level + 1)) xs) @
           newline_indent level @ '']'')"
| "json_encode level (PDict items) =
     (if items = [] then ''{}''
      else ''{'' @ newline_indent (level + 1) @
           str_join ('','' @ newline_indent (level + 1))
             (map (\<lambda>kv. json_string (fst kv) @ '': '' @ json_encode (level + 1) (snd kv)) items) @
           newline_indent level @ ''}'')"

definition json_dumps :: "pyval \<Rightarrow> string" where
  "json_dumps obj = json_encode 0 obj"

text \<open>The dictionary \<open>course_data\<close> of \<open>main\<close>.\<close>

definition course_data :: "string \<Rightarrow> (string \<times> string) list \<Rightarrow> pyval" where
  "course_data subject lesson_plans =
     PDict [(''subject'', PStr subject),
            (''modules'',
             PList [PDict [(''title'', PStr (fst mp)), (''lesson_plan'', PStr (snd mp))].
                    mp \<leftarrow> lesson_plans])]"

subsection \<open>Reading JSON back\<close>

text \<open>
  \<open>json.loads\<close>, as the decoder of the standard library reads a text: whitespace is
  blank, tab, newline and carriage return; a string may not hold a raw control character;
  an escape \<open>\uXXXX\<close> is read for the code points below 256; a number with a fraction
  or an exponent is a floating-point number and is not read. \<open>None\<close> stands for the
  error the decoder raises, or for a text outside this fragment. The recursion is on a
  counter that no text of the given length can use up.
\<close>

definition json_ws :: "char \<Rightarrow> bool" where
  "json_ws c = (c = CHR '' '' \<or> c = CHR 0x09 \<or> c = CHR 0x0A \<or> c = CHR 0x0D)"

definition skip_ws :: "string \<Rightarrow> string" where
  "skip_ws s = dropWhile json_ws s"

definition hex_value :: "char \<Rightarrow> nat option" where
  "hex_value c =
     (let n = (of_char c :: nat)
      in if 48 \<le> n \<and> n \<le> 57 then Some (n - 48)
         else if 97 \<le> n \<and> n \<le> 102 then Some (n - 87)
         else if 65 \<le> n \<and> n \<le> 70 then Some (n - 55)
         else None)"

definition hex4_value :: "char \<Rightarrow> char \<Rightarrow> char \<Rightarrow> char \<Rightarrow> nat option" where
  "hex4_value a b c d =
     (case (hex_value a, hex_value b, hex_value c, hex_value d) of
        (Some x, Some y, Some z, Some u) \<Rightarrow> Some (((x * 16 + y) * 16 + z) * 16 + u)
      | _ \<Rightarrow> None)"

definition unescape :: "char \<Rightarrow> char option" where
  "unescape e =
     (if e = CHR 0x22 then Some CHR 0x22
      else if e = CHR 0x5C then Some CHR 0x5C
      else if e = CHR ''/'' then Some CHR ''/''
      else if e = CHR ''b'' then Some CHR 0x08
      else if e = CHR ''f'' then Some CHR 0x0C
      else if e = CHR ''n'' then Some CHR 0x0A
      else if e = CHR ''r'' then Some CHR 0x0D
      else if e = CHR ''t'' then Some CHR 0x09
      else None)"

definition cons_result :: "'a \<Rightarrow> ('a list \<times> string) option \<Rightarrow> ('a list \<times> string) option" where
  "cons_result x r = (case r of None \<Rightarrow> None | Some (xs, rest) \<Rightarrow> Some (x # xs, rest))"

text \<open>The text of a string, from the character after its opening quote.\<close>

fun scan_string :: "string \<Rightarrow> (string \<times> string) option" where
  "scan_string [] = None"
| "scan_string (c # cs) =
     (if c = CHR 0x22 then Some ([], cs)
      else if c = CHR 0x5C then
        (case cs of
           [] \<Rightarrow> None
         | e # r \<Rightarrow>
             if e = CHR ''u'' then
               (case r of
                  h1 # h2 # h3 # h4 # r' \<Rightarrow>
                    (case hex4_value h1 h2 h3 h4 of
                       None \<Rightarrow> None
                     | Some n \<Rightarrow> if n < 256 then cons_result (char_of n) (scan_string r') else None)
                | _ \<Rightarrow> None)
             else
               (case unescape e of
                  None \<Rightarrow> None
                | Some ch \<Rightarrow> cons_result ch (scan_string r)))
      else if (of_char c :: nat) < 32 then None
      else cons_result c (scan_string cs))"

text \<open>An integer: \<open>-?(0|[1-9][0-9]*)\<close>, not followed by a fraction or an exponent.\<close>

definition nat_of_digits :: "string \<Rightarrow> nat" where
  "nat_of_digits ds = foldl (\<lambda>n d. 10 * n + ((of_char d :: nat) - 48)) 0 ds"

definition is_float_tail :: "string \<Rightarrow> bool" where
  "is_float_tail s =
     (case s of
        [] \<Rightarrow> False
      | c # r \<Rightarrow>
          if c = CHR ''.'' then (case r of [] \<Rightarrow> False | d # _ \<Rightarrow> isdigit d)
          else if c = CHR ''e'' \<or> c = CHR ''E'' then
            (case r of
               [] \<Rightarrow> False
             | d # r' \<Rightarrow>
                 isdigit d \<or>
                 ((d = CHR ''+'' \<or> d = CHR ''-'') \<and> (case r' of [] \<Rightarrow> False | d' # _ \<Rightarrow> isdigit d')))
          else False)"

definition scan_number :: "string \<Rightarrow> (pyval \<times> string) option" where
  "scan_number s =
     (let negative = (s \<noteq> [] \<and> hd s = CHR ''-'');
          body = (if negative then tl s else s);
          digits = (if body \<noteq> [] \<and> hd body = CHR ''0'' then ''0'' else takeWhile isdigit body);
          rest = drop (length digits) body
      in if digits = [] \<or> is_float_tail rest then None
         else Some (PInt (if negative then - int (nat_of_digits digits) else int (nat_of_digits digits)),
                    rest))"

text \<open>\<open>dict(pairs)\<close>: a later pair with the same key replaces the value.\<close>

definition dict_of_pairs :: "(string \<times> pyval) list \<Rightarrow> (string \<times> pyval) list" where
  "dict_of_pairs pairs = foldl (\<lambda>d kv. dict_set d (fst kv) (snd kv)) [] pairs"

text \<open>
  \<open>scan_value\<close> reads one value from the first character of the text; \<open>scan_array\<close>
  reads the elements of a list from its first element; \<open>scan_object\<close> reads the pairs
  of an object from the character after the opening quote of its first key.
\<close>

fun scan_value :: "nat \<Rightarrow> string \<Rightarrow> (pyval \<times> string) option"
  and scan_array :: "nat \<Rightarrow> string \<Rightarrow> (pyval list \<times> string) option"
  and scan_object :: "nat \<Rightarrow> string \<Rightarrow> ((string \<times> pyval) list \<times> string) option" where
  "scan_value 0 s = None"
| "scan_value (Suc n) s =
     (case s of
        [] \<Rightarrow> None
      | c # r \<Rightarrow>
          if c = CHR 0x22 then
            (case scan_string r of None \<Rightarrow> None | Some (x, r') \<Rightarrow> Some (PStr x, r'))
          else if c = CHR ''{'' then
            (case skip_ws r of
               [] \<Rightarrow> None
             | c' # r' \<Rightarrow>
                 if c' = CHR ''}'' then Some (PDict [], r')
                 else if c' = CHR 0x22 then
                   (case scan_object n r' of
                      None \<Rightarrow> None
                    | Some (pairs, r'') \<Rightarrow> Some (PDict (dict_of_pairs pairs), r''))
                 else None)
          else if c = CHR ''['' then
            (case skip_ws r of
               [] \<Rightarrow> None
             | c' # r' \<Rightarrow>
                 if c' = CHR '']'' then Some (PList [], r')
                 else (case scan_array n (c' # r') of
                         None \<Rightarrow> None
                       | Some (xs, r'') \<Rightarrow> Some (PList xs, r'')))
          else if take 4 s = ''null'' then Some (PNone, drop 4 s)
          else if take 4 s = ''true'' then Some (PBool True, drop 4 s)
          else if take 5 s = ''false'' then Some (PBool False, drop 5 s)
          else scan_number s)"
| "scan_array 0 s = None"
| "scan_array (Suc n) s =
     (case scan_value n s of
        None \<Rightarrow> None
      | Some (x, r) \<Rightarrow>
          (case skip_ws r of
             [] \<Rightarrow> None
           | c # r' \<Rightarrow>
               if c = CHR '']'' then Some ([x], r')
               else if c = CHR '','' then cons_result x (scan_array n (skip_ws r'))
               else None))"
| "scan_object 0 s = None"
| "scan_object (Suc n) s =
     (case scan_string s of
        None \<Rightarrow> None
      | Some (key, r) \<Rightarrow>
          (case skip_ws r of
             [] \<Rightarrow> None
           | c # r1 \<Rightarrow>
               if c \<noteq> CHR '':'' then None
               else
                 (case scan_value n (skip_ws r1) of
                    None \<Rightarrow> None
                  | Some (x, r2) \<Rightarrow>
                      (case skip_ws r2 of
                         [] \<Rightarrow> None
                       | c' # r3 \<Rightarrow>
                           if c' = CHR ''}'' then Some ([(key, x)], r3)
                           else if c' = CHR '','' then
                             (case skip_ws r3 of
                                [] \<Rightarrow> None
                              | q # r4 \<Rightarrow>
                                  if q = CHR 0x22 then cons_result (key, x) (scan_object n r4)
                                  else None)
                           else None))))"

definition json_loads :: "string \<Rightarrow> pyval option" where
  "json_loads s =
     (case scan_value (Suc (length s)) (skip_ws s) of
        None \<Rightarrow> None
      | Some (obj, rest) \<Rightarrow> if skip_ws rest = [] then Some obj else None)"

text \<open>What a reader of the export finds in it: the title and the plan text of each module.\<close>

definition read_modules :: "pyval \<Rightarrow> exn + (string \<times> string) list" where
  "read_modules data =
     and_then (py_item data ''modules'') (\<lambda>modules.
     and_then (py_iter modules) (\<lambda>items.
     all_or_raise (map (\<lambda>item.
        and_then (py_item item ''title'') (\<lambda>title.
        and_then (py_str_of title) (\<lambda>title_text.
        and_then (py_item item ''lesson_plan'') (\<lambda>plan.
        and_then (py_str_of plan) (\<lambda>plan_text.
        Inr (title_text, plan_text)))))) items)))"

subsection \<open>Markdown\<close>

definition markdown_content :: "string \<Rightarrow> (string \<times> string) list \<Rightarrow> string" where
  "markdown_content subject lesson_plans =
     foldl (\<lambda>acc imp. acc @ ''## Module '' @ string_of_nat (fst imp + 1) @ '': '' @
                         fst (snd imp) @ ''\<newline>\<newline>'' @ snd (snd imp) @ ''\<newline>\<newline>'')
       (''# '' @ subject @ '' Course Curriculum\<newline>\<newline>'')
       (enumerate 0 lesson_plans)"

subsection \<open>PDF\<close>

text \<open>\<open>s.encode("utf-8")\<close> for the code points below 256.\<close>

definition utf8_encode :: "string \<Rightarrow> string" where
  "utf8_encode s =
     concat (map (\<lambda>c. if (of_char c :: nat) < 128 then [c]
                       else [char_of (192 + (of_char c :: nat) div 64),
                             char_of (128 + (of_char c :: nat) mod 64)]) s)"

definition generate_pdf_content :: "world \<Rightarrow> string \<Rightarrow> (string \<times> string) list \<Rightarrow> exn + string" where
  "generate_pdf_content w subject lesson_plans =
     (let ops =
            [AddPage, SetFont ''Arial'' ''B'' 16, Cell 0 10 (subject @ '' Course Curriculum''),
             Ln 10, SetFont ''Arial'' [] 12] @
            concat (map (\<lambda>imp.
                      [SetFont ''Arial'' ''B'' 14,
                       Cell 0 10 (''Module '' @ string_of_nat (fst imp) @ '': '' @ fst (snd imp)),
                       SetFont ''Arial'' [] 12,
                       MultiCell 0 10 (snd (snd imp)),
                       Ln 5])
                    (enumerate 1 lesson_plans))
      in and_then (fpdf_output w ops) (\<lambda>out. Inr (utf8_encode out)))"

section \<open>The script\<close>

record form_input =
  subject_input :: string
  module_count :: nat
  submit_button :: bool

definition file_name :: "string \<Rightarrow> string \<Rightarrow> string" where
  "file_name subject ext = str_replace CHR '' '' CHR ''_'' subject @ ''_course.'' @ ext"

definition main :: "world \<Rightarrow> form_input \<Rightarrow> pstate \<Rightarrow> pstate \<times> (exn + unit)" where
  "main w form s =
     (let s1 = emit (Text ''Enter a subject to generate a complete course curriculum with lesson plans'')
                 (emit (Title ''AI Course Development Platform'') s)
      in if \<not> submit_button form then (s1, Inr ())
         else
           (let s2 = emit (Subheader ''Course Development Process'')
                       (emit (Spinner ''Creating your course...'') s1);
                (s3, result) = kickoff w (subject_input form) (module_count form) s2
            in case result of
                 Inl e \<Rightarrow> (s3, Inl e)
               | Inr lesson_plans \<Rightarrow>
                   (let s4 = emit (Subheader ''Detailed Lesson Plans'') s3;
                        s5 = foldl (\<lambda>s' imp.
                                      emit (Markdown (snd (snd imp)))
                                        (emit (Expander (''Module '' @ string_of_nat (fst imp + 1) @
                                                 '': '' @ fst (snd imp))) s'))
                               s4 (enumerate 0 lesson_plans);
                        s6 = emit (Subheader ''Export Course Materials'') s5;
                        s7 = emit (Download ''Download JSON''
                                     (json_dumps (course_data (subject_input form) lesson_plans))
                                     (file_name (subject_input form) ''json'')
                                     ''application/json'') s6;
                        s8 = emit (Download ''Download Markdown''
                                     (markdown_content (subject_input form) lesson_plans)
                                     (file_name (subject_input form) ''md'')
                                     ''text/markdown'') s7
                    in case generate_pdf_content w (subject_input form) lesson_plans of
                         Inl e \<Rightarrow> (s8, Inl e)
                       | Inr pdf_bytes \<Rightarrow>
                           (emit (Download ''Download PDF'' pdf_bytes
                                    (file_name (subject_input form) ''pdf'')
                                    ''application/pdf'') s8, Inr ()))))"

section \<open>Observations on a run\<close>

text \<open>The exports a run has offered: the download buttons in its log.\<close>

fun is_download :: "ui_event \<Rightarrow> bool" where
  "is_download (Download label content name mime) = True"
| "is_download e = False"

definition exports :: "pstate \<Rightarrow> ui_event list" where
  "exports s = filter is_download (ui s)"

definition initial :: pstate where
  "initial = \<lparr>ui = [], prompts = []\<rparr>"

text \<open>
  The exception a result carries, and what a stage from \<open>s\<close> to \<open>s'\<close> with that
  outcome has done: it has sent prompts, any call that raised has made its exception the
  outcome of the stage, and it has offered no export.
\<close>

definition raised :: "exn + 'a \<Rightarrow> exn option" where
  "raised r = (case r of Inl e \<Rightarrow> Some e | Inr x \<Rightarrow> None)"

definition stage_run :: "world \<Rightarrow> pstate \<Rightarrow> pstate \<Rightarrow> exn option \<Rightarrow> bool" where
  "stage_run w s s' failure \<longleftrightarrow>
     exports s' = exports s \<and>
     (\<exists>ps. prompts s' = prompts s @ ps \<and>
        (\<forall>i e. i < length ps \<and> completion w (length (prompts s) + i) (ps ! i) = Inl e
           \<longrightarrow> failure = Some e))"

text \<open>
  Worlds and inputs on which the script is run below. In \<open>offline_world\<close> both searches
  fail and the language model answers every call; in \<open>failing_llm_world\<close> the third
  call of the language model raises; in \<open>reversing_world\<close> the user has picked the
  modules from the last to the first.
\<close>

definition offline_world :: world where
  "offline_world =
     \<lparr>requests_get = (\<lambda>url params timeout. Inl (Exn ''ConnectionError'')),
      completion = (\<lambda>n prompt.
         if n = 0 then Inr ''Outline\<newline>1. A\<newline>2. B\<newline>'' else Inr (''plan '' @ string_of_nat n)),
      multiselect = (\<lambda>options. options),
      fpdf_output = (\<lambda>ops. Inr ''%PDF'')\<rparr>"

definition failing_llm_world :: world where
  "failing_llm_world =
     offline_world\<lparr>completion := (\<lambda>n prompt.
        if n = 2 then Inl (Exn ''RateLimitError'') else completion offline_world n prompt)\<rparr>"

definition reversing_world :: world where
  "reversing_world = offline_world\<lparr>multiselect := rev\<rparr>"

definition submitted_form :: form_input where
  "submitted_form = \<lparr>subject_input = ''ML'', module_count = 2, submit_button = True\<rparr>"

text \<open>The state of a run after the outline prompt has been sent.\<close>

definition after_outline :: pstate where
  "after_outline =
     \<lparr>ui = [], prompts = [outline_prompt ''ML'' 2 ''News Headlines: . Research Papers: .'']\<rparr>"

text \<open>
  The lines of a Markdown text that begin with \<open>##\<close> and a space, and the heading
  that \<open>markdown_content\<close> writes for the module at position \<open>i\<close> of the mapping.
\<close>

definition md_headings :: "string \<Rightarrow> string list" where
  "md_headings text = filter (prefix ''## '') (str_split CHR 0x0A text)"

definition module_heading :: "nat \<times> string \<times> string \<Rightarrow> string" where
  "module_heading imp = ''## Module '' @ string_of_nat (fst imp + 1) @ '': '' @ fst (snd imp)"

text \<open>
  For the proof that the export is read back: the values whose dictionaries have distinct
  keys and that hold no number, a bound on the counter that reading a value needs, and
  the texts that can follow a value inside an export.
\<close>

fun json_plain :: "pyval \<Rightarrow> bool" where
  "json_plain (PInt i) = False"
| "json_plain (PList xs) = list_all json_plain xs"
| "json_plain (PDict items) =
     (distinct (map fst items) \<and> list_all (\<lambda>kv. json_plain (snd kv)) items)"
| "json_plain v = True"

fun json_size :: "pyval \<Rightarrow> nat" where
  "json_size (PList xs) = 1 + sum_list (map (\<lambda>x. json_size x + 1) xs)"
| "json_size (PDict items) = 1 + sum_list (map (\<lambda>kv. json_size (snd kv) + 1) items)"
| "json_size v = 1"

definition value_end :: "string \<Rightarrow> bool" where
  "value_end rest = (rest = [] \<or> hd rest = CHR '','' \<or> hd rest = CHR 0x0A)"

section \<open>Properties of the string operations and of the outline parser\<close>

lemma str_split_not_Nil: "str_split sep s \<noteq> []"
  by (induction s) (auto split: list.splits)

lemma str_split_append: "str_split sep (a @ sep # b) = str_split sep a @ str_split sep b"
  by (induction a) (auto split: list.splits simp: str_split_not_Nil)

lemma str_split_no_sep: "l \<in> set (str_split sep s) \<Longrightarrow> sep \<notin> set l"
  by (induction s arbitrary: l) (auto split: list.splits if_splits)

lemma str_split_id: "sep \<notin> set s \<Longrightarrow> str_split sep s = [s]"
  by (induction s) auto

lemma str_join_Cons: "str_join sep ((c # l) # ls) = c # str_join sep (l # ls)"
  by (cases ls) auto

lemma str_join_split: "str_join [sep] (str_split sep s) = s"
  by (induction s) (auto split: list.splits simp: str_join_Cons str_split_not_Nil)

lemma str_split_join:
  "ls \<noteq> [] \<Longrightarrow> \<forall>l \<in> set ls. sep \<notin> set l \<Longrightarrow> str_split sep (str_join [sep] ls) = ls"
proof (induction "[sep]" ls rule: str_join.induct)
  case 1
  then show ?case by simp
next
  case (2 x)
  then show ?case by (simp add: str_split_id)
next
  case (3 x y ys)
  then show ?case by (simp add: str_split_append str_split_id)
qed

lemma str_lstrip_head: "str_lstrip s = [] \<or> \<not> isspace (hd (str_lstrip s))"
  unfolding str_lstrip_def using hd_dropWhile by blast

lemma str_rstrip_last: "str_rstrip s = [] \<or> \<not> isspace (last (str_rstrip s))"
  unfolding str_rstrip_def
  by (metis hd_dropWhile last_rev rev_is_Nil_conv rev_rev_ident)

lemma str_rstrip_prefix: "prefix (str_rstrip s) s"
  unfolding str_rstrip_def
  by (metis prefixI rev_append rev_rev_ident takeWhile_dropWhile_id)

lemma str_strip_ends:
  "str_strip s = [] \<or> (\<not> isspace (hd (str_strip s)) \<and> \<not> isspace (last (str_strip s)))"
proof (cases "str_strip s = []")
  case True
  then show ?thesis by simp
next
  case False
  let ?t = "str_lstrip s"
  have u: "str_strip s = str_rstrip ?t" by (simp add: str_strip_def)
  have "prefix (str_strip s) ?t" unfolding u by (rule str_rstrip_prefix)
  then obtain r where t: "?t = str_strip s @ r" by (auto simp: prefix_def)
  with False have "hd ?t = hd (str_strip s)" and "?t \<noteq> []" by auto
  with str_lstrip_head [of s] have "\<not> isspace (hd (str_strip s))" by auto
  moreover from False str_rstrip_last [of ?t] have "\<not> isspace (last (str_strip s))"
    unfolding u by auto
  ultimately show ?thesis by simp
qed

lemma str_strip_fixed:
  "s = [] \<or> (\<not> isspace (hd s) \<and> \<not> isspace (last s)) \<Longrightarrow> str_strip s = s"
proof (cases "s = []")
  case True
  then show ?thesis by (simp add: str_strip_def str_lstrip_def str_rstrip_def)
next
  case False
  assume "s = [] \<or> (\<not> isspace (hd s) \<and> \<not> isspace (last s))"
  with False have h: "\<not> isspace (hd s)" and l: "\<not> isspace (last s)" by auto
  from False h have "dropWhile isspace s = s" by (cases s) auto
  moreover from False l have "dropWhile isspace (rev s) = rev s"
    by (cases "rev s") (auto simp: last_rev [symmetric] simp del: last_rev)
  ultimately show ?thesis by (simp add: str_strip_def str_lstrip_def str_rstrip_def)
qed

lemma str_strip_idem: "str_strip (str_strip s) = str_strip s"
  using str_strip_ends [of s] by (rule str_strip_fixed)

lemma set_str_strip: "set (str_strip s) \<subseteq> set s"
  unfolding str_strip_def str_lstrip_def str_rstrip_def
  by (metis set_rev subsetI subset_antisym set_dropWhileD dual_order.trans)

lemma re_match_Many1:
  "re_match (Many1 p # items) s \<longleftrightarrow>
     (\<exists>ds rest. ds \<noteq> [] \<and> list_all p ds \<and> s = ds @ rest \<and> re_match items rest)"
proof (induction s)
  case Nil
  then show ?case by simp
next
  case (Cons c cs)
  show ?case
  proof
    assume "re_match (Many1 p # items) (c # cs)"
    then have pc: "p c" and alt: "re_match (Many1 p # items) cs \<or> re_match items cs" by auto
    from alt show "\<exists>ds rest. ds \<noteq> [] \<and> list_all p ds \<and> c # cs = ds @ rest \<and> re_match items rest"
    proof
      assume "re_match (Many1 p # items) cs"
      with Cons obtain ds rest where "ds \<noteq> []" "list_all p ds" "cs = ds @ rest" "re_match items rest"
        by auto
      with pc have "c # ds \<noteq> [] \<and> list_all p (c # ds) \<and> c # cs = (c # ds) @ rest \<and> re_match items rest"
        by simp
      then show ?thesis by blast
    next
      assume "re_match items cs"
      with pc have "[c] \<noteq> [] \<and> list_all p [c] \<and> c # cs = [c] @ cs \<and> re_match items cs" by simp
      then show ?thesis by blast
    qed
  next
    assume "\<exists>ds rest. ds \<noteq> [] \<and> list_all p ds \<and> c # cs = ds @ rest \<and> re_match items rest"
    then obtain ds rest where d: "ds \<noteq> []" "list_all p ds" "c # cs = ds @ rest" "re_match items rest"
      by blast
    then obtain ds' where ds: "ds = c # ds'" by (cases ds) auto
    with d have pc: "p c" and cs: "cs = ds' @ rest" and all: "list_all p ds'" by auto
    show "re_match (Many1 p # items) (c # cs)"
    proof (cases "ds' = []")
      case True
      with cs d pc show ?thesis by simp
    next
      case False
      with all cs d have "re_match (Many1 p # items) cs" using Cons by blast
      with pc show ?thesis by simp
    qed
  qed
qed

lemma re_match_numbered:
  "re_match numbered_re s \<longleftrightarrow>
     (\<exists>ds rest. ds \<noteq> [] \<and> list_all isdigit ds \<and> s = ds @ CHR ''.'' # rest)"
proof -
  have one: "re_match [One (\<lambda>c. c = CHR ''.'')] r \<longleftrightarrow> (\<exists>rest. r = CHR ''.'' # rest)" for r
    by (cases r) auto
  show ?thesis unfolding numbered_re_def re_match_Many1 one by blast
qed


lemma leading_digits_period_iff: "re_match numbered_re s = leading_digits_period s"
proof
  assume "re_match numbered_re s"
  then obtain ds rest where d: "ds \<noteq> []" "list_all isdigit ds" "s = ds @ CHR ''.'' # rest"
    unfolding re_match_numbered by blast
  have nd: "\<not> isdigit CHR ''.''" by (simp add: isdigit_def)
  from d have "\<And>x. x \<in> set ds \<Longrightarrow> isdigit x" by (simp add: list_all_iff)
  with d nd have "takeWhile isdigit s = ds" and "dropWhile isdigit s = CHR ''.'' # rest"
    by (simp_all add: takeWhile_append2 dropWhile_append2)
  with d show "leading_digits_period s" by (simp add: leading_digits_period_def)
next
  assume a: "leading_digits_period s"
  then obtain rest where r: "dropWhile isdigit s = CHR ''.'' # rest"
    by (auto simp: leading_digits_period_def split: list.splits)
  have "s = takeWhile isdigit s @ dropWhile isdigit s" by simp
  with r have "s = takeWhile isdigit s @ CHR ''.'' # rest" by simp
  moreover have "list_all isdigit (takeWhile isdigit s)"
    by (auto simp: list_all_iff dest: set_takeWhileD)
  moreover from a have "takeWhile isdigit s \<noteq> []" by (simp add: leading_digits_period_def)
  ultimately show "re_match numbered_re s" unfolding re_match_numbered by blast
qed

lemma comprehension_filter: "[f x. x \<leftarrow> xs, P x] = map f (filter P xs)"
  by (induction xs) auto

lemma comprehension_filter_id: "[x. x \<leftarrow> xs, P x] = filter P xs"
  by (induction xs) auto

lemma outline_lines_alt:
  "outline_lines outline = filter (\<lambda>l. l \<noteq> []) (map str_strip (str_split CHR 0x0A outline))"
  unfolding outline_lines_def comprehension_filter by (simp add: filter_map comp_def)

lemma outline_modules_alt:
  "outline_modules outline =
     (let lines = outline_lines outline; modules = filter (re_match numbered_re) lines
      in if modules = [] then lines else modules)"
  unfolding outline_modules_def comprehension_filter_id ..

lemma outline_example:
  "outline_modules ''Just prose.\<newline>No numbers here.'' = [''Just prose.'', ''No numbers here.'']"
  by (simp add: outline_modules_def outline_lines_def str_strip_def str_lstrip_def
      str_rstrip_def isspace_def numbered_re_def isdigit_def)

text \<open>
  Claim C1. For every raw outline the parser returns what the contract describes: the
  text is split on newlines, each line is trimmed, empty lines are dropped, the lines that
  start with digits and a period are kept, and when none does every non-empty trimmed line
  is returned. On the two lines of prose of the specification's scenario the result is
  those two lines.
\<close>

theorem outline_parser_contract:
  "outline_modules outline = spec_outline_modules outline \<and>
   outline_modules ''Just prose.\<newline>No numbers here.'' = [''Just prose.'', ''No numbers here.'']"
proof -
  have "(\<lambda>l. re_match numbered_re l) = leading_digits_period"
    by (rule ext) (rule leading_digits_period_iff)
  then have "outline_modules outline = spec_outline_modules outline"
    by (simp add: outline_modules_alt spec_outline_modules_def outline_lines_alt)
  with outline_example show ?thesis by (rule_tac conjI)
qed

lemma outline_lines_props:
  assumes "l \<in> set (outline_lines outline)"
  shows "l \<noteq> []" and "CHR 0x0A \<notin> set l" and "str_strip l = l"
proof -
  from assms obtain raw where raw: "raw \<in> set (str_split CHR 0x0A outline)" and l: "l = str_strip raw"
    and ne: "l \<noteq> []" by (auto simp: outline_lines_def)
  show "l \<noteq> []" by (rule ne)
  from raw have "CHR 0x0A \<notin> set raw" by (rule str_split_no_sep)
  with set_str_strip [of raw] l show "CHR 0x0A \<notin> set l" by auto
  show "str_strip l = l" unfolding l by (rule str_strip_idem)
qed

lemma outline_modules_subset: "set (outline_modules outline) \<subseteq> set (outline_lines outline)"
  by (auto simp: outline_modules_alt Let_def)

lemma outline_lines_join:
  assumes "\<forall>l \<in> set ls. l \<noteq> [] \<and> CHR 0x0A \<notin> set l \<and> str_strip l = l"
  shows "outline_lines (str_join ''\<newline>'' ls) = ls"
proof (cases "ls = []")
  case True
  then show ?thesis
    by (simp add: outline_lines_def str_strip_def str_lstrip_def str_rstrip_def)
next
  case False
  with assms have "str_split CHR 0x0A (str_join [CHR 0x0A] ls) = ls"
    by (intro str_split_join) auto
  moreover from assms have "filter (\<lambda>l. l \<noteq> []) (map str_strip ls) = ls"
    by (induction ls) auto
  ultimately show ?thesis by (simp add: outline_lines_alt)
qed

text \<open>
  Claim C5. The parser is idempotent: joining its output with newlines and parsing again
  gives the same list of modules.
\<close>

theorem outline_parser_idempotent:
  "outline_modules (str_join ''\<newline>'' (outline_modules outline)) = outline_modules outline"
proof -
  let ?ms = "outline_modules outline"
  have "\<forall>l \<in> set ?ms. l \<noteq> [] \<and> CHR 0x0A \<notin> set l \<and> str_strip l = l"
    using outline_modules_subset [of outline] outline_lines_props [of _ outline] by blast
  then have lines: "outline_lines (str_join ''\<newline>'' ?ms) = ?ms" by (rule outline_lines_join)
  have "(let modules = filter (re_match numbered_re) ?ms in if modules = [] then ?ms else modules) = ?ms"
    by (auto simp: outline_modules_alt Let_def filter_empty_conv)
  then show ?thesis
    unfolding outline_modules_alt [of "str_join ''\<newline>'' ?ms"] lines by simp
qed

text \<open>
  Claim C10. The modules are a subsequence of the trimmed non-empty lines of the raw text,
  in the numbered branch and in the fallback branch alike: every module is one of those
  lines, in the same relative order, and no line is repeated or made up.
\<close>

theorem outline_modules_subseq:
  "subseq (outline_modules outline)
     (filter (\<lambda>l. l \<noteq> []) (map str_strip (str_split CHR 0x0A outline)))"
  unfolding outline_lines_alt [symmetric]
  by (simp add: outline_modules_alt Let_def)

section \<open>Properties of the pipeline\<close>

lemma prompts_emit [simp]: "prompts (emit e s) = prompts s"
  by (simp add: emit_def)

lemma ui_emit [simp]: "ui (emit e s) = ui s @ [e]"
  by (simp add: emit_def)

lemma exports_emit [simp]:
  "exports (emit e s) = (if is_download e then exports s @ [e] else exports s)"
  by (simp add: exports_def)

lemma show_titles_keeps [simp]:
  "prompts (show_titles label xs s) = prompts s"
  "exports (show_titles label xs s) = exports s"
proof -
  have "prompts (foldl (\<lambda>s' ix. emit (ItemWrite (fst ix) (snd ix)) s') t ys) = prompts t \<and>
        exports (foldl (\<lambda>s' ix. emit (ItemWrite (fst ix) (snd ix)) s') t ys) = exports t"
    for t and ys :: "(nat \<times> pyval) list"
    by (induction ys arbitrary: t) auto
  then show "prompts (show_titles label xs s) = prompts s"
    and "exports (show_titles label xs s) = exports s"
    by (simp_all add: show_titles_def)
qed

lemma fetch_semantic_scholar_data_keeps:
  "fetch_semantic_scholar_data w subject s = (s', papers) \<Longrightarrow>
     prompts s' = prompts s \<and> exports s' = exports s"
  by (auto simp: fetch_semantic_scholar_data_def split: sum.splits)

lemma fetch_external_data_keeps:
  "fetch_external_data w subject s = (s', d) \<Longrightarrow>
     prompts s' = prompts s \<and> exports s' = exports s"
  by (auto simp: fetch_external_data_def Let_def split: sum.splits prod.splits
      dest!: fetch_semantic_scholar_data_keeps)

lemma combine_external_context_keeps:
  "combine_external_context d s = (s', r) \<Longrightarrow>
     prompts s' = prompts s \<and> exports s' = exports s"
  by (auto simp: combine_external_context_def Let_def split: prod.splits)

lemma combine_empty_lists:
  "combine_external_context ([], []) s = (s, Inr ''News Headlines: . Research Papers: .'')"
  by (simp add: combine_external_context_def show_titles_def py_join_def)

text \<open>
  Claim C6. When the news list and the paper list are both empty, whatever the subject was,
  context assembly raises nothing, shows nothing, and returns the two clauses with empty
  joins.
\<close>

theorem empty_context_blob:
  "combine_external_context ([], []) s = (s, Inr ''News Headlines: . Research Papers: .'')"
  by (rule combine_empty_lists)

lemma raised_simps [simp]: "raised (Inl e) = Some e" "raised (Inr x) = None"
  by (simp_all add: raised_def)

lemma stage_run_silent:
  "prompts s' = prompts s \<Longrightarrow> exports s' = exports s \<Longrightarrow> stage_run w s s' failure"
  by (simp add: stage_run_def)

lemma stage_run_trans:
  assumes "stage_run w s s1 None" and "stage_run w s1 s2 failure"
  shows "stage_run w s s2 failure"
proof -
  from assms(1) obtain ps1 where p1: "prompts s1 = prompts s @ ps1"
    and ok1: "\<And>i e. i < length ps1 \<Longrightarrow> completion w (length (prompts s) + i) (ps1 ! i) \<noteq> Inl e"
    and e1: "exports s1 = exports s"
    by (auto simp: stage_run_def)
  from assms(2) obtain ps2 where p2: "prompts s2 = prompts s1 @ ps2"
    and ok2: "\<And>i e. i < length ps2 \<Longrightarrow> completion w (length (prompts s1) + i) (ps2 ! i) = Inl e
                \<Longrightarrow> failure = Some e"
    and e2: "exports s2 = exports s1"
    by (auto simp: stage_run_def)
  have "failure = Some e"
    if i: "i < length (ps1 @ ps2)" and c: "completion w (length (prompts s) + i) ((ps1 @ ps2) ! i) = Inl e"
    for i e
  proof (cases "i < length ps1")
    case True
    with c ok1 [of i e] show ?thesis by (simp add: nth_append)
  next
    case False
    with i have "i - length ps1 < length ps2" by simp
    moreover from False c p1
    have "completion w (length (prompts s1) + (i - length ps1)) (ps2 ! (i - length ps1)) = Inl e"
      by (simp add: nth_append)
    ultimately show ?thesis by (rule ok2)
  qed
  with p1 p2 e1 e2 show ?thesis unfolding stage_run_def
    by (intro conjI exI [of _ "ps1 @ ps2"]) auto
qed

lemma call_completion_run:
  "call_completion w prompt s = (s', r) \<Longrightarrow> stage_run w s s' (raised r)"
  unfolding stage_run_def call_completion_def
  by (auto simp: exports_def intro!: exI [of _ "[prompt]"])

lemma stage_run_emit: "stage_run w s s' failure \<Longrightarrow> \<not> is_download e \<Longrightarrow> stage_run w s (emit e s') failure"
  by (simp add: stage_run_def)

lemma stage_run_emit_left: "stage_run w (emit e s) s' failure \<Longrightarrow> \<not> is_download e \<Longrightarrow> stage_run w s s' failure"
  by (simp add: stage_run_def)

lemma lesson_plan_loop_run:
  "lesson_plan_loop w n items s d = (s', r) \<Longrightarrow> stage_run w s s' (raised r)"
proof (induction items arbitrary: s d)
  case Nil
  then show ?case by (simp add: stage_run_silent)
next
  case (Cons im rest)
  obtain s2 c where call: "call_completion w (lesson_prompt (snd im))
      (emit (StatusText (lesson_status (fst im) n)) s) = (s2, c)" by fastforce
  then have run2: "stage_run w s s2 (raised c)"
    by (auto dest!: call_completion_run intro: stage_run_emit_left)
  show ?case
  proof (cases c)
    case (Inl e)
    with Cons.prems call run2 show ?thesis by auto
  next
    case (Inr content)
    with Cons.prems call
    have "lesson_plan_loop w n rest (emit (ProgressBar (fst im + 1) n) s2)
            (dict_set d (snd im) (str_strip content)) = (s', r)" by simp
    then have "stage_run w (emit (ProgressBar (fst im + 1) n) s2) s' (raised r)"
      by (rule Cons.IH)
    then have "stage_run w s2 s' (raised r)" by (rule stage_run_emit_left) simp
    with run2 Inr show ?thesis by (auto intro: stage_run_trans)
  qed
qed

lemma generate_course_outline_run:
  "generate_course_outline w subject n ctx s = (s', r) \<Longrightarrow> stage_run w s s' (raised r)"
proof -
  assume a: "generate_course_outline w subject n ctx s = (s', r)"
  obtain s2 c where call: "call_completion w (outline_prompt subject n ctx)
      (emit (StatusLabel ''Generating course outline...'') s) = (s2, c)" by fastforce
  then have run2: "stage_run w s s2 (raised c)"
    by (auto dest!: call_completion_run intro: stage_run_emit_left)
  show ?thesis
  proof (cases c)
    case (Inl e)
    with a call run2 show ?thesis by (auto simp: generate_course_outline_def)
  next
    case (Inr content)
    with a call have "s' = emit (StatusLabel ''Course outline generated'') s2" and "raised r = None"
      by (auto simp: generate_course_outline_def)
    with run2 Inr show ?thesis by (simp add: stage_run_emit)
  qed
qed

lemma generate_lesson_plans_run:
  "generate_lesson_plans w outline s = (s', r) \<Longrightarrow> stage_run w s s' (raised r)"
proof -
  assume a: "generate_lesson_plans w outline s = (s', r)"
  let ?sel = "multiselect w (outline_modules outline)"
  let ?s3 = "emit (ProgressBar 0 1)
      (emit (Multiselect ''Select modules for detailed lesson plans:'' (outline_modules outline))
        (emit (Markdown outline) (emit (Subheader ''Course Outline'') s)))"
  obtain s4 res where loop: "lesson_plan_loop w (length ?sel) (enumerate 0 ?sel) ?s3 [] = (s4, res)"
    by fastforce
  then have "stage_run w ?s3 s4 (raised res)" by (rule lesson_plan_loop_run)
  then have run4: "stage_run w s s4 (raised res)"
    by (auto dest!: stage_run_emit_left)
  show ?thesis
  proof (cases res)
    case (Inl e)
    with a loop run4 show ?thesis by (auto simp: generate_lesson_plans_def Let_def)
  next
    case (Inr plans)
    with a loop have "s' = emit (StatusText ''All lesson plans generated!'') s4" and "raised r = None"
      by (auto simp: generate_lesson_plans_def Let_def)
    with run4 Inr show ?thesis by (simp add: stage_run_emit)
  qed
qed

lemma kickoff_run:
  "kickoff w subject n s = (s', r) \<Longrightarrow> stage_run w s s' (raised r)"
proof -
  assume a: "kickoff w subject n s = (s', r)"
  obtain s1 d where f: "fetch_external_data w subject s = (s1, d)"
    by (cases "fetch_external_data w subject s") auto
  obtain s2 c where c: "combine_external_context d s1 = (s2, c)"
    by (cases "combine_external_context d s1") auto
  from f c have "prompts s2 = prompts s" and "exports s2 = exports s"
    by (auto dest!: fetch_external_data_keeps combine_external_context_keeps)
  then have run2: "stage_run w s s2 failure" for failure by (rule stage_run_silent)
  show ?thesis
  proof (cases c)
    case (Inl e)
    with a f c run2 show ?thesis by (auto simp: kickoff_def)
  next
    case ctx: (Inr ctx)
    obtain s3 out where o: "generate_course_outline w subject n ctx s2 = (s3, out)"
      by (cases "generate_course_outline w subject n ctx s2") auto
    then have "stage_run w s2 s3 (raised out)" by (rule generate_course_outline_run)
    with run2 have run3: "stage_run w s s3 (raised out)" by (rule stage_run_trans)
    show ?thesis
    proof (cases out)
      case (Inl e)
      with a f c ctx o run3 show ?thesis by (auto simp: kickoff_def)
    next
      case (Inr outline)
      with a f c ctx o have "generate_lesson_plans w outline s3 = (s', r)"
        by (auto simp: kickoff_def)
      then have "stage_run w s3 s' (raised r)" by (rule generate_lesson_plans_run)
      with run3 Inr show ?thesis by (auto intro: stage_run_trans)
    qed
  qed
qed

lemma prompts_foldl_emit:
  "prompts (foldl (\<lambda>s' x. emit (g x) (emit (f x) s')) s xs) = prompts s"
  by (induction xs arbitrary: s) auto

lemma main_prompts:
  assumes "main w form s = (s', r)" and "submit_button form"
    and "kickoff w (subject_input form) (module_count form)
           (emit (Subheader ''Course Development Process'')
             (emit (Spinner ''Creating your course...'')
               (emit (Text ''Enter a subject to generate a complete course curriculum with lesson plans'')
                 (emit (Title ''AI Course Development Platform'') s)))) = (s3, result)"
  shows "prompts s' = prompts s3"
proof (cases result)
  case (Inl e)
  with assms show ?thesis by (simp add: main_def Let_def)
next
  case (Inr plans)
  show ?thesis
  proof (cases "generate_pdf_content w (subject_input form) plans")
    case pdf: (Inl e)
    with assms Inr show ?thesis by (auto simp: main_def Let_def prompts_foldl_emit)
  next
    case pdf: (Inr bytes)
    with assms Inr show ?thesis by (auto simp: main_def Let_def prompts_foldl_emit)
  qed
qed

text \<open>
  Claim C8. If a call of the language model made during a run raised (the call for the
  outline or a call of the lesson-plan loop, at any position), the run ends with that
  exception and has offered no export: no download button for JSON, Markdown or PDF, also
  when lesson plans had already been generated.
\<close>

theorem llm_failure_aborts_run:
  assumes run: "main w form s = (s', r)"
    and lo: "length (prompts s) \<le> j" and hi: "j < length (prompts s')"
    and failed: "completion w j (prompts s' ! j) = Inl e"
  shows "r = Inl e \<and> exports s' = exports s"
proof (cases "submit_button form")
  case False
  with run have "prompts s' = prompts s" by (auto simp: main_def Let_def)
  with lo hi show ?thesis by simp
next
  case True
  let ?s2 = "emit (Subheader ''Course Development Process'')
             (emit (Spinner ''Creating your course...'')
               (emit (Text ''Enter a subject to generate a complete course curriculum with lesson plans'')
                 (emit (Title ''AI Course Development Platform'') s)))"
  obtain s3 result where k: "kickoff w (subject_input form) (module_count form) ?s2 = (s3, result)"
    by fastforce
  with run True have p: "prompts s' = prompts s3" by (rule main_prompts)
  from k have "stage_run w ?s2 s3 (raised result)" by (rule kickoff_run)
  then obtain ps where ps: "prompts s3 = prompts s @ ps"
    and ex: "exports s3 = exports s"
    and fail: "\<And>i e. i < length ps \<Longrightarrow> completion w (length (prompts s) + i) (ps ! i) = Inl e
                 \<Longrightarrow> raised result = Some e"
    by (auto simp: stage_run_def)
  from lo hi p ps have "j - length (prompts s) < length ps" by simp
  moreover from lo failed p ps
  have "completion w (length (prompts s) + (j - length (prompts s))) (ps ! (j - length (prompts s))) = Inl e"
    by (simp add: nth_append)
  ultimately have "raised result = Some e" by (rule fail)
  then have "result = Inl e" by (cases result) auto
  with run True k ex show ?thesis by (auto simp: main_def Let_def)
qed

lemma failing_run_length:
  "length (prompts (fst (main failing_llm_world submitted_form initial))) = 3"
  by code_simp

text \<open>
  A run in which the outline and the first lesson plan are generated and the call for the
  second lesson plan raises.
\<close>

theorem llm_failure_aborts_run_witness:
  "snd (main failing_llm_world submitted_form initial) = Inl (Exn ''RateLimitError'') \<and>
   exports (fst (main failing_llm_world submitted_form initial)) = exports initial"
proof -
  let ?out = "main failing_llm_world submitted_form initial"
  have run: "?out = (fst ?out, snd ?out)" by simp
  have lo: "length (prompts initial) \<le> 2" by (simp add: initial_def)
  have hi: "2 < length (prompts (fst ?out))" by (simp add: failing_run_length)
  have failed: "completion failing_llm_world 2 (prompts (fst ?out) ! 2) = Inl (Exn ''RateLimitError'')"
    by (simp add: failing_llm_world_def)
  from llm_failure_aborts_run [OF run lo hi failed] show ?thesis .
qed

lemma fetch_scholar_failure:
  "scholar_try w subject = Inl e \<Longrightarrow>
     fetch_semantic_scholar_data w subject s =
       (emit (Error (''Error fetching Semantic Scholar data: '' @ exn_str e)) s, [])"
  by (simp add: fetch_semantic_scholar_data_def)

lemma fetch_external_data_shape:
  "\<exists>s1 news papers. fetch_external_data w subject s = (s1, news, papers)"
  by (cases "fetch_external_data w subject s") auto

lemma fetch_news_failure:
  assumes "news_try w subject = Inl e"
  shows "fst (snd (fetch_external_data w subject s)) = []"
    and "Error (''Error fetching news data: '' @ exn_str e) \<in> set (ui (fst (fetch_external_data w subject s)))"
proof -
  let ?s3 = "emit (StatusLabel ''Fetching Semantic Scholar data...'')
               (emit (Error (''Error fetching news data: '' @ exn_str e))
                 (emit (StatusLabel ''Fetching news data...'') s))"
  obtain s4 papers where sch: "fetch_semantic_scholar_data w subject ?s3 = (s4, papers)"
    by (cases "fetch_semantic_scholar_data w subject ?s3") auto
  with assms have f: "fetch_external_data w subject s = (s4, [], papers)"
    by (simp add: fetch_external_data_def Let_def)
  then show "fst (snd (fetch_external_data w subject s)) = []" by simp
  from sch have "ui s4 = ui ?s3 @ [Success ''Semantic Scholar data fetched successfully'']
      \<or> (\<exists>e'. ui s4 = ui ?s3 @ [Error (''Error fetching Semantic Scholar data: '' @ exn_str e')])"
    by (auto simp: fetch_semantic_scholar_data_def split: sum.splits)
  then have "Error (''Error fetching news data: '' @ exn_str e) \<in> set (ui s4)" by auto
  with f show "Error (''Error fetching news data: '' @ exn_str e) \<in> set (ui (fst (fetch_external_data w subject s)))"
    by simp
qed

lemma fetch_papers_failure:
  assumes "scholar_try w subject = Inl e"
  shows "snd (snd (fetch_external_data w subject s)) = []"
  using assms
  by (auto simp: fetch_external_data_def Let_def fetch_scholar_failure split: sum.splits prod.splits)


lemma generate_course_outline_prompts:
  "generate_course_outline w subject n ctx s = (s', r) \<Longrightarrow>
     prompts s' = prompts s @ [outline_prompt subject n ctx]"
  by (auto simp: generate_course_outline_def call_completion_def Let_def split: sum.splits)

lemma kickoff_after_context:
  assumes f: "fetch_external_data w subject s = (s1, d)"
    and c: "combine_external_context d s1 = (s2, c)"
  shows "(\<forall>e. c = Inl e \<longrightarrow> kickoff w subject n s = (s2, Inl e)) \<and>
         (\<forall>ctx. c = Inr ctx \<longrightarrow>
            (\<exists>ps. prompts (fst (kickoff w subject n s)) = prompts s @ outline_prompt subject n ctx # ps))"
proof (intro conjI allI impI)
  fix e assume "c = Inl e"
  with f c show "kickoff w subject n s = (s2, Inl e)" by (simp add: kickoff_def)
next
  fix ctx assume ctx: "c = Inr ctx"
  from f c have p2: "prompts s2 = prompts s"
    by (auto dest!: fetch_external_data_keeps combine_external_context_keeps)
  obtain s3 out where o: "generate_course_outline w subject n ctx s2 = (s3, out)"
    by (cases "generate_course_outline w subject n ctx s2") auto
  then have p3: "prompts s3 = prompts s @ [outline_prompt subject n ctx]"
    using p2 by (auto dest!: generate_course_outline_prompts)
  show "\<exists>ps. prompts (fst (kickoff w subject n s)) = prompts s @ outline_prompt subject n ctx # ps"
  proof (cases out)
    case (Inl e)
    with f c ctx o have "kickoff w subject n s = (s3, Inl e)" by (simp add: kickoff_def)
    with p3 show ?thesis by simp
  next
    case (Inr outline)
    obtain s4 r where g: "generate_lesson_plans w outline s3 = (s4, r)"
      by (cases "generate_lesson_plans w outline s3") auto
    then have "stage_run w s3 s4 (raised r)" by (rule generate_lesson_plans_run)
    then obtain ps where "prompts s4 = prompts s3 @ ps" by (auto simp: stage_run_def)
    moreover from f c ctx o Inr g have "kickoff w subject n s = (s4, r)" by (simp add: kickoff_def)
    ultimately show ?thesis using p3 by simp
  qed
qed

text \<open>
  Claim C7. Whatever the subject, an exception raised inside the news fetch or inside the
  paper fetch is caught: the fetcher shows an error message and returns the empty list.
  The run goes on to context assembly on the lists it has: its outcome is either an
  exception of context assembly itself or a run that has sent the outline prompt built
  from the assembled context; when both fetches failed, that context is
  \<open>News Headlines: . Research Papers: .\<close>
\<close>

theorem enrichment_failure_degrades:
  "(news_try w subject = Inl e1 \<longrightarrow>
      fst (snd (fetch_external_data w subject s)) = [] \<and>
      Error (''Error fetching news data: '' @ exn_str e1)
        \<in> set (ui (fst (fetch_external_data w subject s)))) \<and>
   (scholar_try w subject = Inl e2 \<longrightarrow>
      snd (fetch_semantic_scholar_data w subject s) = [] \<and>
      snd (snd (fetch_external_data w subject s)) = []) \<and>
   (\<exists>s1 d s2 c.
      fetch_external_data w subject s = (s1, d) \<and>
      combine_external_context d s1 = (s2, c) \<and>
      (\<forall>e. c = Inl e \<longrightarrow> kickoff w subject n s = (s2, Inl e)) \<and>
      (\<forall>ctx. c = Inr ctx \<longrightarrow>
         (\<exists>ps. prompts (fst (kickoff w subject n s)) =
                 prompts s @ outline_prompt subject n ctx # ps))) \<and>
   (news_try w subject = Inl e1 \<and> scholar_try w subject = Inl e2 \<longrightarrow>
      (\<exists>ps. prompts (fst (kickoff w subject n s)) =
              prompts s @ outline_prompt subject n ''News Headlines: . Research Papers: .'' # ps))"
proof (intro conjI impI)
  assume "news_try w subject = Inl e1"
  then show "fst (snd (fetch_external_data w subject s)) = []"
    and "Error (''Error fetching news data: '' @ exn_str e1)
           \<in> set (ui (fst (fetch_external_data w subject s)))"
    by (rule fetch_news_failure)+
next
  assume "scholar_try w subject = Inl e2"
  then show "snd (fetch_semantic_scholar_data w subject s) = []"
    and "snd (snd (fetch_external_data w subject s)) = []"
    by (simp_all add: fetch_scholar_failure fetch_papers_failure)
next
  obtain s1 d where f: "fetch_external_data w subject s = (s1, d)"
    by (cases "fetch_external_data w subject s") auto
  obtain s2 c where c: "combine_external_context d s1 = (s2, c)"
    by (cases "combine_external_context d s1") auto
  from kickoff_after_context [OF f c, of n] f c
  show "\<exists>s1 d s2 c.
      fetch_external_data w subject s = (s1, d) \<and>
      combine_external_context d s1 = (s2, c) \<and>
      (\<forall>e. c = Inl e \<longrightarrow> kickoff w subject n s = (s2, Inl e)) \<and>
      (\<forall>ctx. c = Inr ctx \<longrightarrow>
         (\<exists>ps. prompts (fst (kickoff w subject n s)) =
                 prompts s @ outline_prompt subject n ctx # ps))"
    by blast
next
  assume both: "news_try w subject = Inl e1 \<and> scholar_try w subject = Inl e2"
  obtain s1 d where f: "fetch_external_data w subject s = (s1, d)"
    by (cases "fetch_external_data w subject s") auto
  from both have "fst d = []" and "snd d = []"
    using fetch_news_failure(1) [of w subject e1 s] fetch_papers_failure [of w subject e2 s] f
    by simp_all
  then have d: "d = ([], [])" by (cases d) simp
  have c: "combine_external_context d s1 = (s1, Inr ''News Headlines: . Research Papers: .'')"
    unfolding d by (rule combine_empty_lists)
  from kickoff_after_context [OF f c, of n]
  show "\<exists>ps. prompts (fst (kickoff w subject n s)) =
              prompts s @ outline_prompt subject n ''News Headlines: . Research Papers: .'' # ps"
    by blast
qed

lemma offline_fetches:
  "news_try offline_world ''ML'' = Inl (Exn ''ConnectionError'')"
  "scholar_try offline_world ''ML'' = Inl (Exn ''ConnectionError'')"
  by (simp_all add: news_try_def scholar_try_def offline_world_def)

text \<open>A run with no network: both fetches raise \<open>ConnectionError\<close>.\<close>

theorem enrichment_failure_degrades_witness:
  "fst (snd (fetch_external_data offline_world ''ML'' initial)) = [] \<and>
   snd (snd (fetch_external_data offline_world ''ML'' initial)) = [] \<and>
   snd (fetch_semantic_scholar_data offline_world ''ML'' initial) = [] \<and>
   Error ''Error fetching news data: ConnectionError''
     \<in> set (ui (fst (fetch_external_data offline_world ''ML'' initial))) \<and>
   (\<exists>ps. prompts (fst (kickoff offline_world ''ML'' 2 initial)) =
      prompts initial @ outline_prompt ''ML'' 2 ''News Headlines: . Research Papers: .'' # ps)"
  using enrichment_failure_degrades [of offline_world "''ML''" "Exn ''ConnectionError''" initial
      "Exn ''ConnectionError''" 2]
  by (simp add: offline_fetches)

lemma dict_set_keys:
  "map fst (dict_set d k v) = (if k \<in> set (map fst d) then map fst d else map fst d @ [k])"
  by (induction d) (auto simp: rev_image_eqI)

lemma map_of_dict_set: "map_of (dict_set d k v) = (map_of d)(k \<mapsto> v)"
  by (induction d) (auto simp: fun_eq_iff)

lemma lesson_plan_loop_success:
  "lesson_plan_loop w n (enumerate k sel) s d = (s', Inr plans) \<Longrightarrow>
     prompts s' = prompts s @ map lesson_prompt sel \<and>
     (\<exists>contents. length contents = length sel \<and>
        (\<forall>i<length sel. completion w (length (prompts s) + i) (lesson_prompt (sel ! i)) = Inr (contents ! i)) \<and>
        plans = foldl (\<lambda>d mc. dict_set d (fst mc) (str_strip (snd mc))) d (zip sel contents))"
proof (induction sel arbitrary: k s d)
  case Nil
  then show ?case by simp
next
  case (Cons m rest)
  let ?s1 = "emit (StatusText (lesson_status k n)) s"
  obtain s2 c where call: "call_completion w (lesson_prompt m) ?s1 = (s2, c)"
    by (cases "call_completion w (lesson_prompt m) ?s1") auto
  then have p2: "prompts s2 = prompts s @ [lesson_prompt m]"
    and c: "c = completion w (length (prompts s)) (lesson_prompt m)"
    by (auto simp: call_completion_def)
  from Cons.prems call obtain content where content: "c = Inr content"
    by (cases c) auto
  let ?s3 = "emit (ProgressBar (k + 1) n) s2"
  let ?d' = "dict_set d m (str_strip content)"
  from Cons.prems call content
  have "lesson_plan_loop w n (enumerate (Suc k) rest) ?s3 ?d' = (s', Inr plans)" by simp
  from Cons.IH [OF this] p2 obtain contents where
    ps: "prompts s' = prompts s @ lesson_prompt m # map lesson_prompt rest"
    and len: "length contents = length rest"
    and ok: "\<forall>i<length rest. completion w (Suc (length (prompts s)) + i) (lesson_prompt (rest ! i)) = Inr (contents ! i)"
    and plans: "plans = foldl (\<lambda>d mc. dict_set d (fst mc) (str_strip (snd mc))) ?d' (zip rest contents)"
    by auto
  have "\<forall>i<length (m # rest). completion w (length (prompts s) + i) (lesson_prompt ((m # rest) ! i)) =
          Inr ((content # contents) ! i)"
  proof (intro allI impI)
    fix i assume "i < length (m # rest)"
    then show "completion w (length (prompts s) + i) (lesson_prompt ((m # rest) ! i)) =
          Inr ((content # contents) ! i)"
      using ok c content by (cases i) auto
  qed
  moreover have "plans = foldl (\<lambda>d mc. dict_set d (fst mc) (str_strip (snd mc))) d (zip (m # rest) (content # contents))"
    using plans by simp
  moreover have "length (content # contents) = length (m # rest)" using len by simp
  ultimately show ?case using ps by (intro conjI exI [of _ "content # contents"]) auto
qed


lemma foldl_store_keys:
  "map fst (foldl (\<lambda>d mc. dict_set d (fst mc) (f (snd mc))) [] kvs) = rev (remdups (rev (map fst kvs)))"
proof (induction kvs rule: rev_induct)
  case Nil
  then show ?case by simp
next
  case (snoc kv kvs)
  have "set (rev (remdups (rev (map fst kvs)))) = set (map fst kvs)" by simp
  with snoc show ?case by (simp add: dict_set_keys)
qed

lemma foldl_store_last:
  "i < length kvs \<Longrightarrow> (\<forall>j. i < j \<and> j < length kvs \<longrightarrow> fst (kvs ! j) \<noteq> fst (kvs ! i)) \<Longrightarrow>
     map_of (foldl (\<lambda>d mc. dict_set d (fst mc) (f (snd mc))) d kvs) (fst (kvs ! i)) = Some (f (snd (kvs ! i)))"
proof (induction kvs rule: rev_induct)
  case Nil
  then show ?case by simp
next
  case (snoc kv kvs)
  show ?case
  proof (cases "i = length kvs")
    case True
    then show ?thesis by (simp add: map_of_dict_set)
  next
    case False
    with snoc.prems have i: "i < length kvs" by simp
    from snoc.prems(2) i have "fst kv \<noteq> fst (kvs ! i)"
      by (auto simp: nth_append dest: spec [of _ "length kvs"])
    moreover have "\<forall>j. i < j \<and> j < length kvs \<longrightarrow> fst (kvs ! j) \<noteq> fst (kvs ! i)"
    proof (intro allI impI)
      fix j assume j: "i < j \<and> j < length kvs"
      with snoc.prems(2) have "fst ((kvs @ [kv]) ! j) \<noteq> fst ((kvs @ [kv]) ! i)" by simp
      with j i show "fst (kvs ! j) \<noteq> fst (kvs ! i)" by (simp add: nth_append)
    qed
    ultimately show ?thesis using snoc.IH [OF i] i by (simp add: map_of_dict_set nth_append)
  qed
qed

lemma generate_lesson_plans_success:
  assumes "generate_lesson_plans w outline s = (s', Inr plans)"
  shows "prompts s' = prompts s @ map lesson_prompt (multiselect w (outline_modules outline)) \<and>
     (\<exists>contents. length contents = length (multiselect w (outline_modules outline)) \<and>
        (\<forall>i<length (multiselect w (outline_modules outline)).
           completion w (length (prompts s) + i)
             (lesson_prompt (multiselect w (outline_modules outline) ! i)) = Inr (contents ! i)) \<and>
        plans = foldl (\<lambda>d mc. dict_set d (fst mc) (str_strip (snd mc))) []
                  (zip (multiselect w (outline_modules outline)) contents))"
proof -
  let ?sel = "multiselect w (outline_modules outline)"
  let ?s3 = "emit (ProgressBar 0 1)
      (emit (Multiselect ''Select modules for detailed lesson plans:'' (outline_modules outline))
        (emit (Markdown outline) (emit (Subheader ''Course Outline'') s)))"
  obtain s4 res where loop: "lesson_plan_loop w (length ?sel) (enumerate 0 ?sel) ?s3 [] = (s4, res)"
    by (cases "lesson_plan_loop w (length ?sel) (enumerate 0 ?sel) ?s3 []") auto
  with assms have res: "res = Inr plans" and s': "prompts s' = prompts s4"
    by (auto simp: generate_lesson_plans_def Let_def split: sum.splits)
  from lesson_plan_loop_success [OF loop [unfolded res]] s' show ?thesis by simp
qed

text \<open>
  Claim C9. When the loop has run over a selection in which a title occurs more than once,
  the mapping holds one entry for each distinct title, so its size is the number of
  distinct selected titles, and the entry of a title holds the plan generated by the call
  for the last occurrence of that title.
\<close>

theorem duplicate_titles_overwrite:
  assumes run: "generate_lesson_plans w outline s = (s', Inr plans)"
    and sel: "sel = multiselect w (outline_modules outline)"
  shows "distinct (map fst plans) \<and> set (map fst plans) = set sel \<and>
         length plans = card (set sel) \<and>
         (\<forall>i<length sel. (\<forall>j. i < j \<and> j < length sel \<longrightarrow> sel ! j \<noteq> sel ! i) \<longrightarrow>
            (\<exists>content. completion w (length (prompts s) + i) (lesson_prompt (sel ! i)) = Inr content \<and>
                       map_of plans (sel ! i) = Some (str_strip content)))"
proof -
  from generate_lesson_plans_success [OF run] sel obtain contents where
    len: "length contents = length sel"
    and ok: "\<forall>i<length sel. completion w (length (prompts s) + i) (lesson_prompt (sel ! i)) = Inr (contents ! i)"
    and plans: "plans = foldl (\<lambda>d mc. dict_set d (fst mc) (str_strip (snd mc))) [] (zip sel contents)"
    by auto
  from len have keys: "map fst plans = rev (remdups (rev sel))"
    unfolding plans foldl_store_keys by simp
  then have "distinct (map fst plans)" and "set (map fst plans) = set sel" by simp_all
  moreover have "length plans = card (set sel)"
  proof -
    have "length plans = length (map fst plans)" by simp
    also have "\<dots> = length (remdups (rev sel))" unfolding keys by simp
    also have "\<dots> = card (set sel)" by (simp add: length_remdups_card_conv)
    finally show ?thesis .
  qed
  moreover have "\<forall>i<length sel. (\<forall>j. i < j \<and> j < length sel \<longrightarrow> sel ! j \<noteq> sel ! i) \<longrightarrow>
            (\<exists>content. completion w (length (prompts s) + i) (lesson_prompt (sel ! i)) = Inr content \<and>
                       map_of plans (sel ! i) = Some (str_strip content))"
  proof (intro allI impI)
    fix i assume i: "i < length sel" and last: "\<forall>j. i < j \<and> j < length sel \<longrightarrow> sel ! j \<noteq> sel ! i"
    let ?kvs = "zip sel contents"
    from i len have "i < length ?kvs" by simp
    moreover from last len i have "\<forall>j. i < j \<and> j < length ?kvs \<longrightarrow> fst (?kvs ! j) \<noteq> fst (?kvs ! i)"
      by simp
    ultimately have "map_of plans (fst (?kvs ! i)) = Some (str_strip (snd (?kvs ! i)))"
      unfolding plans by (rule foldl_store_last)
    with i len have "map_of plans (sel ! i) = Some (str_strip (contents ! i))" by simp
    with ok i show "\<exists>content. completion w (length (prompts s) + i) (lesson_prompt (sel ! i)) = Inr content \<and>
                       map_of plans (sel ! i) = Some (str_strip content)" by blast
  qed
  ultimately show ?thesis by blast
qed

lemma duplicate_run:
  "snd (generate_lesson_plans offline_world ''1. A\<newline>1. A'' after_outline) = Inr [(''1. A'', ''plan 2'')]"
  "multiselect offline_world (outline_modules ''1. A\<newline>1. A'') = [''1. A'', ''1. A'']"
  by code_simp+

text \<open>
  An outline with the same line twice, all modules selected: the plan of the first call
  of the loop is overwritten by the plan of the second.
\<close>

theorem duplicate_titles_overwrite_witness:
  "distinct (map fst [(''1. A'', ''plan 2'')]) \<and>
   set (map fst [(''1. A'', ''plan 2'')]) = set [''1. A'', ''1. A''] \<and>
   length [(''1. A'', ''plan 2'')] = card (set [''1. A'', ''1. A''])"
proof -
  let ?g = "generate_lesson_plans offline_world ''1. A\<newline>1. A'' after_outline"
  have run: "?g = (fst ?g, Inr [(''1. A'', ''plan 2'')])"
    using duplicate_run(1) by (metis prod.collapse)
  have sel: "[''1. A'', ''1. A''] = multiselect offline_world (outline_modules ''1. A\<newline>1. A'')"
    by (simp add: duplicate_run(2))
  from duplicate_titles_overwrite [OF run sel] show ?thesis by blast
qed

lemma subseq_first_occurrences: "subseq (rev (remdups (rev xs))) xs"
proof (induction xs rule: rev_induct)
  case Nil
  then show ?case by simp
next
  case (snoc x xs)
  show ?case
  proof (cases "x \<in> set xs")
    case True
    with snoc show ?thesis by (simp add: subseq_rev_drop_many)
  next
    case False
    from snoc have "subseq (rev (remdups (rev xs)) @ [x]) (xs @ [x])"
      by (intro list_emb_append_mono) simp_all
    with False show ?thesis by simp
  qed
qed

lemma reversed_run:
  "outline_modules ''Outline\<newline>1. A\<newline>2. B'' = [''1. A'', ''2. B'']"
  "multiselect reversing_world [''1. A'', ''2. B''] = [''2. B'', ''1. A'']"
  "snd (generate_course_outline reversing_world ''ML'' 2 ''News Headlines: . Research Papers: .'' initial) = Inr ''Outline\<newline>1. A\<newline>2. B''"
  "prompts (fst (generate_lesson_plans reversing_world ''Outline\<newline>1. A\<newline>2. B'' after_outline)) =
     prompts after_outline @ [lesson_prompt ''2. B'', lesson_prompt ''1. A'']"
  "snd (generate_lesson_plans reversing_world ''Outline\<newline>1. A\<newline>2. B'' after_outline) =
     Inr [(''2. B'', ''plan 1''), (''1. A'', ''plan 2'')]"
  by code_simp+


text \<open>
  Claim C2, as amended. The loop iterates the list that the selection widget returned, in
  the order of that list: the prompts are sent in that order and the plans are stored in
  the order of the first occurrences in it. The loop does not reorder the selection
  against the outline; when the returned list is a subsequence of the parsed outline (as
  the default selection of all modules is), the stored order is the order of the outline.
\<close>

theorem lesson_plans_follow_selection:
  assumes run: "generate_lesson_plans w outline s = (s', Inr plans)"
  shows "prompts s' = prompts s @ map lesson_prompt (multiselect w (outline_modules outline)) \<and>
         map fst plans = rev (remdups (rev (multiselect w (outline_modules outline)))) \<and>
         (subseq (multiselect w (outline_modules outline)) (outline_modules outline) \<longrightarrow>
            subseq (map fst plans) (outline_modules outline))"
proof -
  let ?sel = "multiselect w (outline_modules outline)"
  from generate_lesson_plans_success [OF run] obtain contents where
    ps: "prompts s' = prompts s @ map lesson_prompt ?sel"
    and len: "length contents = length ?sel"
    and plans: "plans = foldl (\<lambda>d mc. dict_set d (fst mc) (str_strip (snd mc))) [] (zip ?sel contents)"
    by auto
  from len have keys: "map fst plans = rev (remdups (rev ?sel))"
    unfolding plans foldl_store_keys by simp
  have "subseq (map fst plans) (outline_modules outline)"
    if "subseq ?sel (outline_modules outline)"
    using subseq_first_occurrences [of ?sel] that unfolding keys by (rule subseq_order.trans)
  with ps keys show ?thesis by blast
qed

text \<open>A run in which the widget returns the two modules of the outline in reverse.\<close>

theorem lesson_plans_follow_selection_witness:
  "prompts (fst (generate_lesson_plans reversing_world ''Outline\<newline>1. A\<newline>2. B'' after_outline)) =
     prompts after_outline @
       map lesson_prompt (multiselect reversing_world (outline_modules ''Outline\<newline>1. A\<newline>2. B'')) \<and>
   map fst [(''2. B'', ''plan 1''), (''1. A'', ''plan 2'')] =
     rev (remdups (rev (multiselect reversing_world (outline_modules ''Outline\<newline>1. A\<newline>2. B''))))"
proof -
  let ?g = "generate_lesson_plans reversing_world ''Outline\<newline>1. A\<newline>2. B'' after_outline"
  have run: "?g = (fst ?g, Inr [(''2. B'', ''plan 1''), (''1. A'', ''plan 2'')])"
    using reversed_run(5) by (metis prod.collapse)
  from lesson_plans_follow_selection [OF run] show ?thesis by blast
qed

text \<open>
  Claim C2 as stated fails on that run: the outline has \<open>1. A\<close> before \<open>2. B\<close>,
  the widget returns \<open>2. B\<close> first, and the plan for \<open>2. B\<close> is generated and stored
  first.
\<close>

theorem selection_order_counterexample:
  "outline_modules ''Outline\<newline>1. A\<newline>2. B'' = [''1. A'', ''2. B''] \<and>
   multiselect reversing_world [''1. A'', ''2. B''] = [''2. B'', ''1. A''] \<and>
   prompts (fst (generate_lesson_plans reversing_world ''Outline\<newline>1. A\<newline>2. B'' after_outline)) =
     prompts after_outline @ [lesson_prompt ''2. B'', lesson_prompt ''1. A''] \<and>
   snd (generate_lesson_plans reversing_world ''Outline\<newline>1. A\<newline>2. B'' after_outline) =
     Inr [(''2. B'', ''plan 1''), (''1. A'', ''plan 2'')] \<and>
   prompts (fst (generate_lesson_plans reversing_world ''Outline\<newline>1. A\<newline>2. B'' after_outline)) \<noteq>
     prompts after_outline @ map lesson_prompt (outline_modules ''Outline\<newline>1. A\<newline>2. B'')"
proof -
  have "lesson_prompt ''2. B'' \<noteq> lesson_prompt ''1. A''" by (simp add: lesson_prompt_def)
  with reversed_run show ?thesis by simp
qed

section \<open>Properties of the exports\<close>

lemma digit_char_values:
  "digit_char 0 = CHR ''0''" "digit_char 1 = CHR ''1''" "digit_char 2 = CHR ''2''"
  "digit_char 3 = CHR ''3''" "digit_char 4 = CHR ''4''" "digit_char 5 = CHR ''5''"
  "digit_char 6 = CHR ''6''" "digit_char 7 = CHR ''7''" "digit_char 8 = CHR ''8''"
  "digit_char 9 = CHR ''9''" "digit_char 10 = CHR ''a''" "digit_char 11 = CHR ''b''"
  "digit_char 12 = CHR ''c''" "digit_char 13 = CHR ''d''" "digit_char 14 = CHR ''e''"
  "digit_char 15 = CHR ''f''" "digit_char (Suc 0) = CHR ''1''"
  by (simp_all add: digit_char_def)

lemma lt10: "(n::nat) < 10 \<Longrightarrow> n \<in> {0, 1, 2, 3, 4, 5, 6, 7, 8, 9}"
  by auto

lemma digit_char_isdigit: "n < 10 \<Longrightarrow> isdigit (digit_char n)"
  by (drule lt10) (auto simp: digit_char_values isdigit_def)
lemma string_of_nat_digits: "\<forall>c \<in> set (string_of_nat n). isdigit c"
proof (induction n rule: string_of_nat.induct)
  case (1 n)
  show ?case
  proof (cases "n < 10")
    case True
    then show ?thesis by (subst string_of_nat.simps) (simp add: digit_char_isdigit)
  next
    case False
    with 1 show ?thesis
      by (subst string_of_nat.simps) (simp add: digit_char_isdigit)
  qed
qed

lemma newline_not_digit: "\<not> isdigit CHR 0x0A"
  by (simp add: isdigit_def)

lemma string_of_nat_no_newline: "CHR 0x0A \<notin> set (string_of_nat n)"
  using string_of_nat_digits [of n] newline_not_digit by blast

lemma foldl_append_concat: "foldl (\<lambda>acc x. acc @ f x) a xs = a @ concat (map f xs)"
  by (induction xs arbitrary: a) auto

lemma md_headings_append:
  "md_headings (a @ CHR 0x0A # b) = md_headings a @ md_headings b"
  by (simp add: md_headings_def str_split_append)

lemma md_headings_line:
  "CHR 0x0A \<notin> set l \<Longrightarrow> md_headings l = (if prefix ''## '' l then [l] else [])"
  by (simp add: md_headings_def str_split_id)

lemma md_headings_Nil: "md_headings [] = []"
  by (simp add: md_headings_def)



lemma module_heading_line: "CHR 0x0A \<notin> set m \<Longrightarrow> CHR 0x0A \<notin> set (module_heading (i, m, p))"
  using string_of_nat_no_newline [of "i + 1"] by (simp add: module_heading_def)

lemma module_heading_prefix: "prefix ''## '' (module_heading imp)"
  by (simp add: module_heading_def)

lemma markdown_content_blocks:
  "markdown_content subject plans =
     ''# '' @ subject @ '' Course Curriculum\<newline>\<newline>'' @
     concat (map (\<lambda>imp. module_heading imp @ ''\<newline>\<newline>'' @ snd (snd imp) @ ''\<newline>\<newline>'')
               (enumerate 0 plans))"
  by (simp add: markdown_content_def module_heading_def foldl_append_concat)

lemma md_headings_blocks:
  assumes "\<forall>mp \<in> set plans. CHR 0x0A \<notin> set (fst mp) \<and> md_headings (snd mp) = []"
  shows "md_headings (concat (map (\<lambda>imp. module_heading imp @ ''\<newline>\<newline>'' @ snd (snd imp) @ ''\<newline>\<newline>'')
               (enumerate k plans))) = map module_heading (enumerate k plans)"
  using assms
proof (induction plans arbitrary: k)
  case Nil
  then show ?case by (simp add: md_headings_Nil)
next
  case (Cons mp plans)
  obtain m p where mp: "mp = (m, p)" by (cases mp)
  let ?rest = "concat (map (\<lambda>imp. module_heading imp @ ''\<newline>\<newline>'' @ snd (snd imp) @ ''\<newline>\<newline>'')
               (enumerate (Suc k) plans))"
  from Cons.prems mp have m: "CHR 0x0A \<notin> set m" and p: "md_headings p = []" by auto
  from Cons have IH: "md_headings ?rest = map module_heading (enumerate (Suc k) plans)" by simp
  have h: "md_headings (module_heading (k, m, p)) = [module_heading (k, m, p)]"
    using module_heading_line [OF m] by (simp add: md_headings_line module_heading_prefix)
  have "md_headings (module_heading (k, m, p) @ CHR 0x0A # ([] @ CHR 0x0A # (p @ CHR 0x0A # ([] @ CHR 0x0A # ?rest))))
        = [module_heading (k, m, p)] @ [] @ [] @ [] @ md_headings ?rest"
    unfolding md_headings_append h p md_headings_Nil ..
  with IH mp show ?case by simp
qed


lemma md_headings_title:
  "CHR 0x0A \<notin> set subject \<Longrightarrow> md_headings (''# '' @ subject @ '' Course Curriculum'') = []"
  by (simp add: md_headings_line)

text \<open>
  Claim C3, as amended. The Markdown export is the title line followed by one block for
  each module, in the order of the mapping: the heading of the module, an empty line, its
  plan text, an empty line. When the subject and the titles hold no newline and no line
  of a plan text begins with \<open>##\<close> and a space, the lines of the export that begin so
  are exactly the headings, one for each module, in the order of the mapping.
\<close>

theorem markdown_headings:
  "markdown_content subject plans =
     ''# '' @ subject @ '' Course Curriculum\<newline>\<newline>'' @
     concat (map (\<lambda>imp. module_heading imp @ ''\<newline>\<newline>'' @ snd (snd imp) @ ''\<newline>\<newline>'')
               (enumerate 0 plans)) \<and>
   (CHR 0x0A \<notin> set subject \<and>
    (\<forall>mp \<in> set plans. CHR 0x0A \<notin> set (fst mp) \<and> md_headings (snd mp) = []) \<longrightarrow>
      md_headings (markdown_content subject plans) = map module_heading (enumerate 0 plans) \<and>
      length (md_headings (markdown_content subject plans)) = length plans)"
proof (intro conjI impI)
  show "markdown_content subject plans =
     ''# '' @ subject @ '' Course Curriculum\<newline>\<newline>'' @
     concat (map (\<lambda>imp. module_heading imp @ ''\<newline>\<newline>'' @ snd (snd imp) @ ''\<newline>\<newline>'')
               (enumerate 0 plans))"
    by (rule markdown_content_blocks)
next
  assume a: "CHR 0x0A \<notin> set subject \<and>
    (\<forall>mp \<in> set plans. CHR 0x0A \<notin> set (fst mp) \<and> md_headings (snd mp) = [])"
  let ?blocks = "concat (map (\<lambda>imp. module_heading imp @ ''\<newline>\<newline>'' @ snd (snd imp) @ ''\<newline>\<newline>'')
               (enumerate 0 plans))"
  let ?title = "''# '' @ subject @ '' Course Curriculum''"
  have "markdown_content subject plans = ?title @ CHR 0x0A # ([] @ CHR 0x0A # ?blocks)"
    by (simp add: markdown_content_blocks)
  then have "md_headings (markdown_content subject plans)
      = md_headings ?title @ md_headings [] @ md_headings ?blocks"
    by (simp only: md_headings_append)
  also have "\<dots> = map module_heading (enumerate 0 plans)"
  proof -
    from a have t: "md_headings ?title = []" by (intro md_headings_title) simp
    from a have b: "md_headings ?blocks = map module_heading (enumerate 0 plans)"
      by (intro md_headings_blocks) simp
    show ?thesis unfolding t b md_headings_Nil by simp
  qed
  finally show h: "md_headings (markdown_content subject plans) = map module_heading (enumerate 0 plans)" .
  show "length (md_headings (markdown_content subject plans)) = length plans"
    unfolding h by simp
qed

lemma plain_plans:
  "md_headings ''Topics'' = []" "md_headings ''More'' = []"
  by (simp_all add: md_headings_def)

text \<open>Two modules with plain plan texts.\<close>

theorem markdown_headings_witness:
  "md_headings (markdown_content ''ML'' [(''1. A'', ''Topics''), (''2. B'', ''More'')]) =
     map module_heading (enumerate 0 [(''1. A'', ''Topics''), (''2. B'', ''More'')]) \<and>
   length (md_headings (markdown_content ''ML'' [(''1. A'', ''Topics''), (''2. B'', ''More'')])) =
     length [(''1. A'', ''Topics''), (''2. B'', ''More'')]"
proof -
  have "CHR 0x0A \<notin> set ''ML'' \<and>
    (\<forall>mp \<in> set [(''1. A'', ''Topics''), (''2. B'', ''More'')].
        CHR 0x0A \<notin> set (fst mp) \<and> md_headings (snd mp) = [])"
    by (simp add: plain_plans)
  with markdown_headings [of "''ML''" "[(''1. A'', ''Topics''), (''2. B'', ''More'')]"]
  show ?thesis by blast
qed

text \<open>
  Claim C3 as stated fails when a plan text has a heading of its own: one module, two
  lines that begin with \<open>##\<close> and a space.
\<close>

theorem markdown_headings_counterexample:
  "md_headings (markdown_content ''ML'' [(''1. A'', ''## Topics'')]) =
     [''## Module 1: 1. A'', ''## Topics''] \<and>
   length (md_headings (markdown_content ''ML'' [(''1. A'', ''## Topics'')])) \<noteq>
     length [(''1. A'', ''## Topics'')]"
proof -
  have "md_headings (markdown_content ''ML'' [(''1. A'', ''## Topics'')]) =
     [''## Module 1: 1. A'', ''## Topics'']"
    by code_simp
  then show ?thesis by simp
qed

subsection \<open>Reading the JSON export back\<close>

lemma digit_char_mod: "digit_char (d mod 16) = digit_char d"
  by (simp add: digit_char_def)

lemma lt16: "(n::nat) < 16 \<Longrightarrow> n \<in> {0, 1, 2, 3, 4, 5, 6, 7, 8, 9, 10, 11, 12, 13, 14, 15}"
  by simp arith

lemma hex_value_digit_char_lt: "d < 16 \<Longrightarrow> hex_value (digit_char d) = Some d"
  by (drule lt16) (auto simp: digit_char_values hex_value_def)

lemma hex4_value_hex4:
  assumes "n < 256"
  shows "hex4_value (digit_char (n div 4096)) (digit_char (n div 256)) (digit_char (n div 16)) (digit_char n) = Some n"
proof -
  from assms have z: "n div 4096 = 0" "n div 256 = 0" and d: "n div 16 < 16" by simp_all
  have "hex_value (digit_char (n div 16)) = Some (n div 16)" using d by (rule hex_value_digit_char_lt)
  moreover have "hex_value (digit_char n) = Some (n mod 16)"
    using hex_value_digit_char_lt [of "n mod 16"] by (simp add: digit_char_mod)
  moreover have "hex_value (digit_char 0) = Some 0" by (simp add: hex_value_digit_char_lt)
  ultimately show ?thesis by (simp add: hex4_value_def z)
qed

lemma of_char_lt_256: "(of_char c :: nat) < 256"
  by simp

lemma scan_string_escape:
  "scan_string (json_escape_char c @ rest) = cons_result c (scan_string rest)"
proof -
  let ?n = "of_char c :: nat"
  consider (quote) "c = CHR 0x22" | (backslash) "c = CHR 0x5C" | (nl) "c = CHR 0x0A"
    | (cr) "c = CHR 0x0D" | (tab) "c = CHR 0x09" | (ff) "c = CHR 0x0C" | (bs) "c = CHR 0x08"
    | (plain) "c \<noteq> CHR 0x22" "c \<noteq> CHR 0x5C" "32 \<le> ?n" "?n \<le> 126"
    | (other) "c \<noteq> CHR 0x22" "c \<noteq> CHR 0x5C" "c \<noteq> CHR 0x0A" "c \<noteq> CHR 0x0D" "c \<noteq> CHR 0x09"
        "c \<noteq> CHR 0x0C" "c \<noteq> CHR 0x08" "\<not> (32 \<le> ?n \<and> ?n \<le> 126)"
    by blast
  then show ?thesis
  proof cases
    case quote
    then show ?thesis by (simp add: json_escape_char_def unescape_def)
  next
    case backslash
    then show ?thesis by (simp add: json_escape_char_def unescape_def)
  next
    case nl
    then show ?thesis by (simp add: json_escape_char_def unescape_def)
  next
    case cr
    then show ?thesis by (simp add: json_escape_char_def unescape_def)
  next
    case tab
    then show ?thesis by (simp add: json_escape_char_def unescape_def)
  next
    case ff
    then show ?thesis by (simp add: json_escape_char_def unescape_def)
  next
    case bs
    then show ?thesis by (simp add: json_escape_char_def unescape_def)
  next
    case plain
    have "json_escape_char c = [c]"
    proof -
      from plain(3) have "c \<noteq> CHR 0x0A" "c \<noteq> CHR 0x0D" "c \<noteq> CHR 0x09" "c \<noteq> CHR 0x0C" "c \<noteq> CHR 0x08"
        by auto
      with plain show ?thesis by (simp add: json_escape_char_def)
    qed
    moreover from plain(3) have "\<not> ?n < 32" by simp
    ultimately show ?thesis using plain(1,2) by simp
  next
    case other
    then have e: "json_escape_char c = [CHR 0x5C, CHR ''u''] @ hex4 ?n"
      by (simp add: json_escape_char_def)
    have "hex4_value (digit_char (?n div 4096)) (digit_char (?n div 256)) (digit_char (?n div 16))
            (digit_char ?n) = Some ?n"
      by (rule hex4_value_hex4) (rule of_char_lt_256)
    then show ?thesis unfolding e by (simp add: hex4_def)
  qed
qed

lemma scan_string_json_string:
  "scan_string (concat (map json_escape_char s) @ CHR 0x22 # rest) = Some (s, rest)"
proof (induction s)
  case Nil
  then show ?case by simp
next
  case (Cons c s)
  then show ?case by (simp add: scan_string_escape cons_result_def del: scan_string.simps)
qed

lemma skip_ws_indent: "skip_ws (newline_indent level @ s) = skip_ws s"
  by (simp add: skip_ws_def newline_indent_def json_ws_def dropWhile_append)

lemma skip_ws_Cons: "\<not> json_ws c \<Longrightarrow> skip_ws (c # s) = c # s"
  by (simp add: skip_ws_def)

lemma skip_ws_Nil: "skip_ws [] = []"
  by (simp add: skip_ws_def)

lemma dict_set_fresh: "k \<notin> fst ` set d \<Longrightarrow> dict_set d k v = d @ [(k, v)]"
  by (induction d) auto

lemma dict_of_pairs_distinct: "distinct (map fst ps) \<Longrightarrow> dict_of_pairs ps = ps"
proof (induction ps rule: rev_induct)
  case Nil
  then show ?case by (simp add: dict_of_pairs_def)
next
  case (snoc kv ps)
  then have "dict_of_pairs ps = ps" and "fst kv \<notin> fst ` set ps" by auto
  then show ?case by (simp add: dict_of_pairs_def dict_set_fresh)
qed

lemma str_join_Cons2: "ys \<noteq> [] \<Longrightarrow> str_join sep (x # ys) = x @ sep @ str_join sep ys"
  by (cases ys) auto

lemma json_encode_first:
  "json_plain v \<Longrightarrow> \<exists>c r. json_encode level v = c # r \<and> \<not> json_ws c \<and> c \<noteq> CHR '']''"
  by (cases v) (auto simp: json_string_def json_ws_def)

lemma skip_ws_encode: "json_plain v \<Longrightarrow> skip_ws (json_encode level v @ s) = json_encode level v @ s"
  using json_encode_first [of v level] by (auto simp: skip_ws_Cons)

lemma str_join_first:
  assumes "xs \<noteq> []" and "\<And>x. x \<in> set xs \<Longrightarrow> \<exists>c r. f x = c # r \<and> P c"
  shows "\<exists>c r. str_join sep (map f xs) = c # r \<and> P c"
proof -
  from assms(1) obtain x ys where xs: "xs = x # ys" by (cases xs) auto
  with assms(2) [of x] obtain c r where "f x = c # r" "P c" by auto
  then show ?thesis unfolding xs by (cases ys) auto
qed

lemma value_end_simps:
  "value_end []" "value_end (CHR '','' # s)" "value_end (newline_indent level @ s)"
  by (simp_all add: value_end_def newline_indent_def)

lemma scan_array_join:
  assumes "xs \<noteq> []"
    and "\<And>x n rest. x \<in> set xs \<Longrightarrow> json_size x \<le> n \<Longrightarrow> value_end rest \<Longrightarrow>
           scan_value n (json_encode lv x @ rest) = Some (x, rest)"
    and "\<And>x. x \<in> set xs \<Longrightarrow> json_plain x"
    and "sum_list (map (\<lambda>x. json_size x + 1) xs) \<le> n"
  shows "scan_array n (str_join (CHR '','' # newline_indent lv) (map (json_encode lv) xs) @
           newline_indent outer @ CHR '']'' # rest) = Some (xs, rest)"
  using assms
proof (induction xs arbitrary: n rule: list_nonempty_induct)
  case (single x)
  then obtain n' where n: "n = Suc n'" and fuel: "json_size x \<le> n'" by (cases n) auto
  from single fuel
  have "scan_value n' (json_encode lv x @ newline_indent outer @ CHR '']'' # rest)
          = Some (x, newline_indent outer @ CHR '']'' # rest)"
    by (simp add: value_end_simps)
  then show ?case unfolding n
    by (simp add: skip_ws_indent skip_ws_Cons json_ws_def)
next
  case (cons x xs)
  then obtain n' where n: "n = Suc n'" and fx: "json_size x \<le> n'"
    and fxs: "sum_list (map (\<lambda>x. json_size x + 1) xs) \<le> n'" by (cases n) auto
  let ?tail = "str_join (CHR '','' # newline_indent lv) (map (json_encode lv) xs) @
           newline_indent outer @ CHR '']'' # rest"
  have j: "str_join (CHR '','' # newline_indent lv) (map (json_encode lv) (x # xs)) @
           newline_indent outer @ CHR '']'' # rest
         = json_encode lv x @ CHR '','' # newline_indent lv @ ?tail"
    using cons.hyps(1) by (simp add: str_join_Cons2)
  have v: "scan_value n' (json_encode lv x @ CHR '','' # newline_indent lv @ ?tail)
          = Some (x, CHR '','' # newline_indent lv @ ?tail)"
    using cons.prems(1) [of x n'] fx by (simp add: value_end_simps)
  have "\<exists>c r. str_join (CHR '','' # newline_indent lv) (map (json_encode lv) xs) = c # r \<and> \<not> json_ws c"
    using cons.hyps(1) cons.prems(2) json_encode_first
    by (intro str_join_first) (auto, blast)
  then have sk: "skip_ws ?tail = ?tail" by (auto simp: skip_ws_Cons)
  have IH: "scan_array n' ?tail = Some (xs, rest)"
    using cons.prems fxs by (intro cons.IH) auto
  show ?case unfolding n j
    by (simp add: v skip_ws_Cons json_ws_def skip_ws_indent sk IH cons_result_def)
qed


lemma skip_ws_space: "skip_ws (CHR '' '' # s) = skip_ws s"
  by (simp add: skip_ws_def json_ws_def)

lemma scan_object_join:
  assumes "items \<noteq> []"
    and "\<And>kv n rest. kv \<in> set items \<Longrightarrow> json_size (snd kv) \<le> n \<Longrightarrow> value_end rest \<Longrightarrow>
           scan_value n (json_encode lv (snd kv) @ rest) = Some (snd kv, rest)"
    and "\<And>kv. kv \<in> set items \<Longrightarrow> json_plain (snd kv)"
    and "sum_list (map (\<lambda>kv. json_size (snd kv) + 1) items) \<le> n"
  shows "scan_object n (tl (str_join (CHR '','' # newline_indent lv)
             (map (\<lambda>kv. json_string (fst kv) @ CHR '':'' # CHR '' '' # json_encode lv (snd kv)) items) @
           newline_indent outer @ CHR ''}'' # rest)) = Some (items, rest)"
  using assms
proof (induction items arbitrary: n rule: list_nonempty_induct)
  case (single kv)
  then obtain n' where n: "n = Suc n'" and fuel: "json_size (snd kv) \<le> n'" by (cases n) auto
  let ?after = "newline_indent outer @ CHR ''}'' # rest"
  from single fuel
  have v: "scan_value n' (json_encode lv (snd kv) @ ?after) = Some (snd kv, ?after)"
    by (simp add: value_end_simps)
  have sk: "skip_ws (json_encode lv (snd kv) @ ?after) = json_encode lv (snd kv) @ ?after"
    using single.prems(2) by (simp add: skip_ws_encode)
  show ?case unfolding n
    by (simp add: json_string_def scan_string_json_string skip_ws_Cons json_ws_def skip_ws_space sk v
        skip_ws_indent del: scan_string.simps)
next
  case (cons kv items)
  then obtain n' where n: "n = Suc n'" and fx: "json_size (snd kv) \<le> n'"
    and fxs: "sum_list (map (\<lambda>kv. json_size (snd kv) + 1) items) \<le> n'" by (cases n) auto
  let ?join = "str_join (CHR '','' # newline_indent lv)
             (map (\<lambda>kv. json_string (fst kv) @ CHR '':'' # CHR '' '' # json_encode lv (snd kv)) items)"
  let ?tail = "?join @ newline_indent outer @ CHR ''}'' # rest"
  let ?after = "CHR '','' # newline_indent lv @ ?tail"
  have j: "str_join (CHR '','' # newline_indent lv)
             (map (\<lambda>kv. json_string (fst kv) @ CHR '':'' # CHR '' '' # json_encode lv (snd kv)) (kv # items)) @
           newline_indent outer @ CHR ''}'' # rest
         = CHR 0x22 # concat (map json_escape_char (fst kv)) @ CHR 0x22 # CHR '':'' # CHR '' '' #
             json_encode lv (snd kv) @ ?after"
    using cons.hyps(1) by (simp add: str_join_Cons2 json_string_def)
  have v: "scan_value n' (json_encode lv (snd kv) @ ?after) = Some (snd kv, ?after)"
    using cons.prems(1) [of kv n'] fx by (simp add: value_end_simps)
  have sk: "skip_ws (json_encode lv (snd kv) @ ?after) = json_encode lv (snd kv) @ ?after"
    using cons.prems(2) by (simp add: skip_ws_encode)
  have "\<exists>c r. ?join = c # r \<and> c = CHR 0x22"
    using cons.hyps(1) by (intro str_join_first) (auto simp: json_string_def)
  then obtain r where jr: "?join = CHR 0x22 # r" by auto
  then have t: "?tail = CHR 0x22 # tl ?tail" by simp
  have IH: "scan_object n' (tl ?tail) = Some (items, rest)"
    using cons.prems fxs by (intro cons.IH) auto
  have sk2: "skip_ws ?tail = CHR 0x22 # tl ?tail"
    by (subst t) (simp add: skip_ws_Cons json_ws_def)
  show ?case unfolding n j
    by (simp add: scan_string_json_string skip_ws_Cons json_ws_def skip_ws_space sk v
        skip_ws_indent sk2 IH cons_result_def del: scan_string.simps)
qed


lemma snd_in_snds: "snd kv \<in> Basic_BNFs.snds kv"
  by (cases kv) (simp add: snds.simps)

lemma scan_value_encode:
  "json_plain v \<Longrightarrow> json_size v \<le> n \<Longrightarrow> value_end rest \<Longrightarrow>
     scan_value n (json_encode level v @ rest) = Some (v, rest)"
proof (induction v arbitrary: level n rest)
  case PNone
  then obtain n' where "n = Suc n'" by (cases n) auto
  then show ?case by simp
next
  case (PBool b)
  then obtain n' where "n = Suc n'" by (cases n) auto
  then show ?case by (cases b) simp_all
next
  case (PInt i)
  then show ?case by simp
next
  case (PStr s)
  then obtain n' where "n = Suc n'" by (cases n) auto
  then show ?case by (simp add: json_string_def scan_string_json_string del: scan_string.simps)
next
  case (PList xs)
  then obtain n' where n: "n = Suc n'" and fuel: "sum_list (map (\<lambda>x. json_size x + 1) xs) \<le> n'"
    by (cases n) auto
  show ?case
  proof (cases "xs = []")
    case True
    then show ?thesis unfolding n by (simp add: skip_ws_Cons json_ws_def)
  next
    case False
    let ?join = "str_join (CHR '','' # newline_indent (Suc level)) (map (json_encode (Suc level)) xs)"
    let ?tail = "?join @ newline_indent level @ CHR '']'' # rest"
    from PList.prems(1) have plain: "\<And>x. x \<in> set xs \<Longrightarrow> json_plain x"
      by (simp add: list_all_iff)
    have "\<exists>c r. ?join = c # r \<and> (\<not> json_ws c \<and> c \<noteq> CHR '']'')"
      using False plain json_encode_first by (intro str_join_first) auto
    then obtain c r where cr: "?join = c # r" and c: "\<not> json_ws c" "c \<noteq> CHR '']''" by auto
    have arr: "scan_array n' ?tail = Some (xs, rest)"
      using False PList.IH plain fuel by (intro scan_array_join) auto
    have sk: "skip_ws ?tail = c # (r @ newline_indent level @ CHR '']'' # rest)"
      using cr c by (simp add: skip_ws_Cons)
    have t: "c # (r @ newline_indent level @ CHR '']'' # rest) = ?tail" using cr by simp
    have "scan_value (Suc n') (CHR ''['' # newline_indent (Suc level) @ ?tail) = Some (PList xs, rest)"
      using c arr by (simp add: skip_ws_indent sk del: append_assoc) (simp add: t)
    with False show ?thesis unfolding n by simp
  qed
next
  case (PDict items)
  then obtain n' where n: "n = Suc n'"
    and fuel: "sum_list (map (\<lambda>kv. json_size (snd kv) + 1) items) \<le> n'"
    by (cases n) auto
  show ?case
  proof (cases "items = []")
    case True
    then show ?thesis unfolding n by (simp add: skip_ws_Cons json_ws_def)
  next
    case False
    let ?join = "str_join (CHR '','' # newline_indent (Suc level))
        (map (\<lambda>kv. json_string (fst kv) @ CHR '':'' # CHR '' '' # json_encode (Suc level) (snd kv)) items)"
    let ?tail = "?join @ newline_indent level @ CHR ''}'' # rest"
    from PDict.prems(1) have plain: "\<And>kv. kv \<in> set items \<Longrightarrow> json_plain (snd kv)"
      and dist: "distinct (map fst items)"
      by (simp_all add: list_all_iff)
    have "\<exists>c r. ?join = c # r \<and> c = CHR 0x22"
      using False by (intro str_join_first) (auto simp: json_string_def)
    then obtain r where jr: "?join = CHR 0x22 # r" by auto
    have obj: "scan_object n' (tl ?tail) = Some (items, rest)"
      using False PDict.IH plain fuel snd_in_snds by (intro scan_object_join) auto
    have sk: "skip_ws ?tail = CHR 0x22 # tl ?tail"
      using jr by (simp add: skip_ws_Cons json_ws_def)
    have "scan_value (Suc n') (CHR ''{'' # newline_indent (Suc level) @ ?tail) = Some (PDict items, rest)"
      using obj dist by (simp add: skip_ws_indent sk dict_of_pairs_distinct del: append_assoc)
    with False show ?thesis unfolding n by simp
  qed
qed


lemma length_str_join_sep:
  "sep \<noteq> [] \<Longrightarrow> sum_list (map (\<lambda>x. length x + 1) xs) \<le> length (str_join sep xs) + 1"
proof (induction sep xs rule: str_join.induct)
  case (1 sep)
  then show ?case by simp
next
  case (2 sep x)
  then show ?case by simp
next
  case (3 sep x y ys)
  then have "1 \<le> length sep" by (cases sep) auto
  with 3 show ?case by simp
qed

lemma json_size_le_length: "json_plain v \<Longrightarrow> json_size v \<le> length (json_encode level v)"
proof (induction v arbitrary: level)
  case (PStr s)
  then show ?case by (simp add: json_string_def)
next
  case (PList xs)
  show ?case
  proof (cases "xs = []")
    case True
    then show ?thesis by simp
  next
    case False
    from PList have "\<And>x. x \<in> set xs \<Longrightarrow> json_size x + 1 \<le> length (json_encode (Suc level) x) + 1"
      by (simp add: list_all_iff)
    then have "sum_list (map (\<lambda>x. json_size x + 1) xs)
        \<le> sum_list (map (\<lambda>x. length (json_encode (Suc level) x) + 1) xs)"
      by (rule sum_list_mono)
    also have "\<dots> = sum_list (map (\<lambda>t. length t + 1) (map (json_encode (Suc level)) xs))"
      by (simp add: comp_def)
    also have "\<dots> \<le> length (str_join (CHR '','' # newline_indent (Suc level))
                          (map (json_encode (Suc level)) xs)) + 1"
      by (rule length_str_join_sep) simp
    finally show ?thesis using False by simp
  qed
next
  case (PDict items)
  show ?case
  proof (cases "items = []")
    case True
    then show ?thesis by simp
  next
    case False
    let ?member = "\<lambda>kv. json_string (fst kv) @ CHR '':'' # CHR '' '' # json_encode (Suc level) (snd kv)"
    have "json_size (snd kv) \<le> length (json_encode (Suc level) (snd kv))"
      if "kv \<in> set items" for kv
    proof -
      from PDict.prems that have "json_plain (snd kv)" by (simp add: list_all_iff)
      with that snd_in_snds [of kv] show ?thesis by (rule PDict.IH)
    qed
    then have "\<And>kv. kv \<in> set items \<Longrightarrow> json_size (snd kv) + 1 \<le> length (?member kv) + 1"
      by fastforce
    then have "sum_list (map (\<lambda>kv. json_size (snd kv) + 1) items)
        \<le> sum_list (map (\<lambda>kv. length (?member kv) + 1) items)"
      by (rule sum_list_mono)
    also have "\<dots> = sum_list (map (\<lambda>t. length t + 1) (map ?member items))"
      by (simp add: comp_def)
    also have "\<dots> \<le> length (str_join (CHR '','' # newline_indent (Suc level)) (map ?member items)) + 1"
      by (rule length_str_join_sep) simp
    finally show ?thesis using False by simp
  qed
qed simp_all

lemma json_loads_dumps: "json_plain v \<Longrightarrow> json_loads (json_dumps v) = Some v"
proof -
  assume plain: "json_plain v"
  let ?s = "json_encode 0 v"
  have sk: "skip_ws ?s = ?s" using skip_ws_encode [OF plain, of 0 "[]"] by simp
  have "json_size v \<le> Suc (length ?s)" using json_size_le_length [OF plain, of 0] by simp
  with plain have "scan_value (Suc (length ?s)) (?s @ []) = Some (v, [])"
    by (intro scan_value_encode) (simp_all add: value_end_simps)
  then show ?thesis by (simp add: json_loads_def json_dumps_def sk skip_ws_Nil)
qed

lemma course_data_plain: "json_plain (course_data subject plans)"
  by (simp add: course_data_def comprehension_filter list_all_iff)

lemma read_modules_course_data: "read_modules (course_data subject plans) = Inr plans"
proof -
  let ?read = "\<lambda>item.
        and_then (py_item item ''title'') (\<lambda>title.
        and_then (py_str_of title) (\<lambda>title_text.
        and_then (py_item item ''lesson_plan'') (\<lambda>plan.
        and_then (py_str_of plan) (\<lambda>plan_text.
        Inr (title_text, plan_text)))))"
  have "all_or_raise (map ?read (map (\<lambda>mp. PDict [(''title'', PStr (fst mp)), (''lesson_plan'', PStr (snd mp))]) plans))
        = Inr plans"
    by (induction plans) simp_all
  then show ?thesis
    by (simp add: read_modules_def course_data_def)
qed

text \<open>
  Claim C4. For every mapping, the JSON export read back by \<open>json.loads\<close> is the
  exported object: its subject, and under \<open>modules\<close> one entry for each entry of the
  mapping, in the same order, with the same title and the same lesson-plan text.
\<close>

theorem json_export_round_trips:
  "json_loads (json_dumps (course_data subject plans)) = Some (course_data subject plans) \<and>
   py_item (course_data subject plans) ''subject'' = Inr (PStr subject) \<and>
   read_modules (course_data subject plans) = Inr plans"
proof (intro conjI)
  show "json_loads (json_dumps (course_data subject plans)) = Some (course_data subject plans)"
    using course_data_plain by (rule json_loads_dumps)
  show "py_item (course_data subject plans) ''subject'' = Inr (PStr subject)"
    by (simp add: course_data_def)
  show "read_modules (course_data subject plans) = Inr plans"
    by (rule read_modules_course_data)
qed

end
